theory Spec2Isabelle
  imports Complex_Main "HOL-Library.Product_Lexorder" "HOL-Library.List_Lexorder"
    "HOL-Library.Char_ord" "HOL-Library.Multiset"
begin

section \<open>Narrative entity extraction: a shallow embedding\<close>

text \<open>
  The JavaScript sources are embedded function by function, keeping their names.
  Objects are records, JavaScript \<^verbatim>\<open>Map\<close>s and plain-object dictionaries are
  insertion-ordered association lists with unique keys, thrown exceptions are the
  \<open>Inl\<close> side of a sum, counts are natural numbers, and strings are lists of
  characters read as ASCII text (code units above 127 have no case and are neither
  letters, digits nor white space).
\<close>

subsection \<open>JavaScript values and helpers\<close>

datatype json =
    JNull
  | JBool bool
  | JNum int
  | JStr string
  | JArr "json list"
  | JObj "(string \<times> json) list"

text \<open>
  What a \<^verbatim>\<open>throw\<close> or a rejected promise carries is any value: an \<^verbatim>\<open>Error\<close> object with
  its message (of any class but \<^verbatim>\<open>TypeError\<close>: \<^verbatim>\<open>Error\<close>, \<^verbatim>\<open>SyntaxError\<close>, the error class of
  a client library), a \<^verbatim>\<open>TypeError\<close> with its message, \<^verbatim>\<open>null\<close>, \<^verbatim>\<open>undefined\<close>, or another
  value, of which only those without a \<open>message\<close> property are covered (a string, a
  number, a plain object).
\<close>

datatype js_error =
    Error string
  | TypeError string
  | ThrownNull
  | ThrownUndefined
  | ThrownValue

text \<open>\<^verbatim>\<open>Map.prototype.set\<close>, \<^verbatim>\<open>get\<close> and \<^verbatim>\<open>delete\<close>: a key that is present keeps its
  position when it is set again, a new key goes to the end.\<close>

fun map_set :: "'k \<Rightarrow> 'v \<Rightarrow> ('k \<times> 'v) list \<Rightarrow> ('k \<times> 'v) list" where
  "map_set k v [] = [(k, v)]"
| "map_set k v ((k', v') # m) = (if k' = k then (k, v) # m else (k', v') # map_set k v m)"

fun map_get :: "('k \<times> 'v) list \<Rightarrow> 'k \<Rightarrow> 'v option" where
  "map_get [] k = None"
| "map_get ((k', v') # m) k = (if k' = k then Some v' else map_get m k)"

fun map_delete :: "'k \<Rightarrow> ('k \<times> 'v) list \<Rightarrow> ('k \<times> 'v) list" where
  "map_delete k [] = []"
| "map_delete k ((k', v') # m) = (if k' = k then map_delete k m else (k', v') # map_delete k m)"

text \<open>Decimal rendering of a count, as template literals do.\<close>

fun show_nat :: "nat \<Rightarrow> string" where
  "show_nat n =
     (if n < 10 then [char_of (48 + n)]
      else show_nat (n div 10) @ [char_of (48 + n mod 10)])"

declare show_nat.simps [simp del]

text \<open>Comparison of two strings with \<^verbatim>\<open><\<close>: by code units, a proper prefix first.\<close>

fun js_string_lt :: "string \<Rightarrow> string \<Rightarrow> bool" where
  "js_string_lt [] [] = False"
| "js_string_lt [] (y # ys) = True"
| "js_string_lt (x # xs) [] = False"
| "js_string_lt (x # xs) (y # ys) =
     (if x = y then js_string_lt xs ys else (of_char x :: nat) < of_char y)"

text \<open>\<^verbatim>\<open>Array.prototype.sort((a, b) => key(b) - key(a))\<close> is a stable sort, descending
  in the key.\<close>

definition sort_desc :: "('a \<Rightarrow> nat) \<Rightarrow> 'a list \<Rightarrow> 'a list" where
  "sort_desc key xs = sort_key (\<lambda>x. - int (key x)) xs"

subsection \<open>Entities (tier-entities.js, llm-coref-merge.js)\<close>

record variant =
  form :: string
  count :: nat

record first_appearance =
  fa_chapter :: nat
  fa_paragraph :: nat
  fa_form :: "string option"

record entity =
  entity_id :: string
  canonicalName :: string
  mentions :: nat
  variants :: "variant list option"
  qualifiedBy :: "string option"
  sentenceStartRatio :: "rat option"
  entity_notes :: "string option"
  mergedFrom :: "string list option"
  firstAppearance :: "first_appearance option"

text \<open>\<^verbatim>\<open>x || []\<close> on an optional array.\<close>

definition or_empty :: "'a list option \<Rightarrow> 'a list" where
  "or_empty xs = (case xs of None \<Rightarrow> [] | Some ys \<Rightarrow> ys)"

subsection \<open>applyMerges (llm-coref-merge.js)\<close>

record applied_merge =
  primary :: string
  merged :: "string list"
  newMentionCount :: nat

record skipped_merge =
  group :: json
  reason :: string

record merge_result =
  entities :: "entity list"
  appliedMerges :: "applied_merge list"
  skippedMerges :: "skipped_merge list"

type_synonym entity_map = "(string \<times> entity) list"

text \<open>The lookup map of \<open>applyMerges\<close>: every entity is set under its canonical name.\<close>

definition buildEntityMap :: "entity list \<Rightarrow> entity_map" where
  "buildEntityMap es = fold (\<lambda>e m. map_set (canonicalName e) e m) es []"

text \<open>\<^verbatim>\<open>entityMap.get(name)\<close> for a member of a merge group, which is any JSON value:
  only a string can be a key of the map.\<close>

definition entity_get :: "entity_map \<Rightarrow> json \<Rightarrow> entity option" where
  "entity_get m j = (case j of JStr name \<Rightarrow> map_get m name | _ \<Rightarrow> None)"

text \<open>The body of the first loop over \<open>others\<close>, without the deletion from the map:
  the other's variants are pushed, its canonical name is pushed as a variant when no
  variant has that form, its mentions are added and its name is recorded.\<close>

definition absorb :: "entity \<Rightarrow> entity \<Rightarrow> entity" where
  "absorb p other =
     (let vs1 = (case variants other of
                   None \<Rightarrow> variants p
                 | Some ovs \<Rightarrow> Some (or_empty (variants p) @ ovs));
          hasCanonicalVariant = list_ex (\<lambda>v. form v = canonicalName other) (or_empty vs1);
          vs2 = (if \<not> hasCanonicalVariant
                 then Some (or_empty vs1 @ [\<lparr>form = canonicalName other, count = mentions other\<rparr>])
                 else vs1)
      in p\<lparr>variants := vs2,
           mentions := mentions p + mentions other,
           mergedFrom := Some (or_empty (mergedFrom p) @ [canonicalName other])\<rparr>)"

text \<open>
  Entities are objects held by reference. The map has one object per canonical name,
  so a member of \<open>others\<close> with the primary's name is the primary object itself and is
  read in its current, already mutated state; any other member is not written during
  the group and is read as it was looked up.
\<close>

definition deref :: "entity \<Rightarrow> entity \<Rightarrow> entity" where
  "deref p other = (if canonicalName other = canonicalName p then p else other)"

fun mergeOthers :: "entity \<Rightarrow> entity list \<Rightarrow> entity" where
  "mergeOthers p [] = p"
| "mergeOthers p (other # os) = mergeOthers (absorb p (deref p other)) os"

text \<open>\<^verbatim>\<open>a < b\<close> on two plain objects converts both with \<^verbatim>\<open>toString\<close> and compares the
  strings.\<close>

definition object_toString :: "first_appearance \<Rightarrow> string" where
  "object_toString fa = ''[object Object]''"

definition js_lt_object :: "first_appearance \<Rightarrow> first_appearance \<Rightarrow> bool" where
  "js_lt_object a b = js_string_lt (object_toString a) (object_toString b)"

text \<open>The second loop over \<open>others\<close>: "Update firstAppearance to earliest".\<close>

definition adoptFirst :: "entity \<Rightarrow> entity \<Rightarrow> entity" where
  "adoptFirst p other =
     (case firstAppearance other of
        None \<Rightarrow> p
      | Some fo \<Rightarrow>
          (case firstAppearance p of
             None \<Rightarrow> p\<lparr>firstAppearance := Some fo\<rparr>
           | Some fp \<Rightarrow> if js_lt_object fo fp then p\<lparr>firstAppearance := Some fo\<rparr> else p))"

fun updateFirstAppearance :: "entity \<Rightarrow> entity list \<Rightarrow> entity" where
  "updateFirstAppearance p [] = p"
| "updateFirstAppearance p (other # os) =
     updateFirstAppearance (adoptFirst p (deref p other)) os"

record merge_state =
  entityMap :: entity_map
  applied :: "applied_merge list"
  skipped :: "skipped_merge list"

text \<open>One iteration of the loop over the merge groups. The primary is mutated in place,
  so the map shows its final state under its name unless that name was deleted.\<close>

definition applyGroup :: "json \<Rightarrow> merge_state \<Rightarrow> merge_state" where
  "applyGroup g st =
     (case g of
        JArr names \<Rightarrow>
          if length names < 2
          then st\<lparr>skipped := skipped st @ [\<lparr>group = g, reason = ''Invalid group structure''\<rparr>]\<rparr>
          else
            let groupEntities = List.map_filter (entity_get (entityMap st)) names in
            if length groupEntities < 2
            then st\<lparr>skipped := skipped st @
                   [\<lparr>group = g,
                     reason = ''Only '' @ show_nat (length groupEntities) @ '' of '' @
                              show_nat (length names) @ '' names found in entities''\<rparr>]\<rparr>
            else
              let ordered = sort_desc mentions groupEntities;
                  primary0 = hd ordered;
                  others = tl ordered;
                  primary1 = mergeOthers primary0 others;
                  primary2 = updateFirstAppearance primary1 others;
                  m1 = map (\<lambda>(k, e). if k = canonicalName primary0 then (k, primary2) else (k, e))
                         (entityMap st);
                  m2 = fold (\<lambda>other m. map_delete (canonicalName other) m) others m1
              in st\<lparr>entityMap := m2,
                    applied := applied st @
                      [\<lparr>primary = canonicalName primary2,
                        merged = map canonicalName others,
                        newMentionCount = mentions primary2\<rparr>]\<rparr>
      | _ \<Rightarrow> st\<lparr>skipped := skipped st @ [\<lparr>group = g, reason = ''Invalid group structure''\<rparr>]\<rparr>)"

definition applyMerges :: "entity list \<Rightarrow> json list \<Rightarrow> merge_result" where
  "applyMerges es merges =
     (let st = fold applyGroup merges
                 \<lparr>entityMap = buildEntityMap es, applied = [], skipped = []\<rparr>;
          remainingEntities = map snd (entityMap st)
      in \<lparr>entities = sort_desc mentions remainingEntities,
          appliedMerges = applied st,
          skippedMerges = skipped st\<rparr>)"

subsection \<open>Characters and regular expressions\<close>

definition upperChars :: string where "upperChars = ''ABCDEFGHIJKLMNOPQRSTUVWXYZ''"

definition lowerChars :: string where "lowerChars = ''abcdefghijklmnopqrstuvwxyz''"

definition digitChars :: string where "digitChars = ''0123456789''"

definition is_upper :: "char \<Rightarrow> bool" where "is_upper c \<longleftrightarrow> c \<in> set upperChars"

definition is_lower :: "char \<Rightarrow> bool" where "is_lower c \<longleftrightarrow> c \<in> set lowerChars"

definition is_letter :: "char \<Rightarrow> bool" where "is_letter c \<longleftrightarrow> is_upper c \<or> is_lower c"

definition is_digit :: "char \<Rightarrow> bool" where "is_digit c \<longleftrightarrow> c \<in> set digitChars"

text \<open>\<^verbatim>\<open>\w\<close> and \<^verbatim>\<open>\s\<close> (tab, line feed, vertical tab, form feed, carriage return, space).
  In JavaScript \<^verbatim>\<open>\s\<close> and \<^verbatim>\<open>trim\<close> also take the no-break space U+00A0 and further
  Unicode spaces, and \<^verbatim>\<open>toLowerCase\<close> and \<^verbatim>\<open>toUpperCase\<close> also map letters beyond ASCII;
  both lie outside the ASCII reading of the texts, so on a text with such characters the
  functions below split, trim and compare differently from the source.\<close>

definition is_word :: "char \<Rightarrow> bool" where
  "is_word c \<longleftrightarrow> is_letter c \<or> is_digit c \<or> c = CHR ''_''"

definition is_space :: "char \<Rightarrow> bool" where
  "is_space c \<longleftrightarrow> c \<in> {CHR 0x09, CHR 0x0A, CHR 0x0B, CHR 0x0C, CHR 0x0D, CHR '' ''}"

definition to_lower :: "char \<Rightarrow> char" where
  "to_lower c = (case map_of (zip upperChars lowerChars) c of None \<Rightarrow> c | Some l \<Rightarrow> l)"

definition to_upper :: "char \<Rightarrow> char" where
  "to_upper c = (case map_of (zip lowerChars upperChars) c of None \<Rightarrow> c | Some u \<Rightarrow> u)"

definition toLowerCase :: "string \<Rightarrow> string" where "toLowerCase s = map to_lower s"

definition trim :: "string \<Rightarrow> string" where
  "trim s = rev (dropWhile is_space (rev (dropWhile is_space s)))"

definition endsWith :: "string \<Rightarrow> string \<Rightarrow> bool" where
  "endsWith s suffix \<longleftrightarrow> length suffix \<le> length s \<and> drop (length s - length suffix) s = suffix"

text \<open>\<^verbatim>\<open>parts.join(sep)\<close>.\<close>

fun join :: "string \<Rightarrow> string list \<Rightarrow> string" where
  "join sep [] = []"
| "join sep [x] = x"
| "join sep (x # xs) = x @ sep @ join sep xs"

text \<open>
  A position in a text is the character before it, if any, and the text after it.
  A regular expression yields the positions where a match starting here can end, in
  the order in which a backtracking matcher tries them: the first alternative first,
  the longest repetition first. The first position of the list is the match.
  \<open>Lit\<close> is a literal text, \<open>Cls\<close> one character of a class, \<open>Star\<close> and \<open>Plus\<close> greedy
  repetitions of a class, \<open>Opt\<close> a greedy \<^verbatim>\<open>?\<close>, \<open>Behind\<close> the lookbehind \<^verbatim>\<open>(?<=[...])\<close>.
  The flag \<open>ci\<close> is the \<^verbatim>\<open>i\<close> flag; it decides how literals compare.
\<close>

type_synonym cursor = "char option \<times> string"

datatype regex =
    Lit string
  | Cls "char \<Rightarrow> bool"
  | Star "char \<Rightarrow> bool"
  | Plus "char \<Rightarrow> bool"
  | Opt regex
  | Alt regex regex
  | Seq regex regex
  | WordBoundary
  | Bos
  | Eos
  | Behind "char \<Rightarrow> bool"

fun litEnds :: "bool \<Rightarrow> string \<Rightarrow> cursor \<Rightarrow> cursor list" where
  "litEnds ci [] cur = [cur]"
| "litEnds ci (w # ws) (prev, []) = []"
| "litEnds ci (w # ws) (prev, c # cs) =
     (if (if ci then to_lower c = to_lower w else c = w)
      then litEnds ci ws (Some c, cs) else [])"

fun starEnds :: "(char \<Rightarrow> bool) \<Rightarrow> cursor \<Rightarrow> cursor list" where
  "starEnds P (prev, []) = [(prev, [])]"
| "starEnds P (prev, c # cs) =
     (if P c then starEnds P (Some c, cs) @ [(prev, c # cs)] else [(prev, c # cs)])"

definition wordChar :: "char option \<Rightarrow> bool" where
  "wordChar c = (case c of None \<Rightarrow> False | Some x \<Rightarrow> is_word x)"

fun ends :: "bool \<Rightarrow> regex \<Rightarrow> cursor \<Rightarrow> cursor list" where
  "ends ci (Lit w) cur = litEnds ci w cur"
| "ends ci (Cls P) (prev, []) = []"
| "ends ci (Cls P) (prev, c # cs) = (if P c then [(Some c, cs)] else [])"
| "ends ci (Star P) cur = starEnds P cur"
| "ends ci (Plus P) (prev, []) = []"
| "ends ci (Plus P) (prev, c # cs) = (if P c then starEnds P (Some c, cs) else [])"
| "ends ci (Opt r) cur = ends ci r cur @ [cur]"
| "ends ci (Alt r1 r2) cur = ends ci r1 cur @ ends ci r2 cur"
| "ends ci (Seq r1 r2) cur = concat (map (ends ci r2) (ends ci r1 cur))"
| "ends ci WordBoundary (prev, rest) =
     (if wordChar prev \<noteq> wordChar (case rest of [] \<Rightarrow> None | c # cs \<Rightarrow> Some c)
      then [(prev, rest)] else [])"
| "ends ci Bos (prev, rest) = (if prev = None then [(prev, rest)] else [])"
| "ends ci Eos (prev, rest) = (if rest = [] then [(prev, rest)] else [])"
| "ends ci (Behind P) (prev, rest) =
     (case prev of None \<Rightarrow> [] | Some c \<Rightarrow> if P c then [(prev, rest)] else [])"

text \<open>\<^verbatim>\<open>(a|b|c)\<close> and a sequence of several parts.\<close>

fun alts :: "regex list \<Rightarrow> regex" where
  "alts [] = Cls (\<lambda>c. False)"
| "alts [r] = r"
| "alts (r # rs) = Alt r (alts rs)"

fun seqs :: "regex list \<Rightarrow> regex" where
  "seqs [] = Lit []"
| "seqs [r] = r"
| "seqs (r # rs) = Seq r (seqs rs)"

text \<open>
  A scan with the \<^verbatim>\<open>g\<close> flag cuts the text into the characters it skips and the
  matches it finds, each search starting where the last match ended, one character
  further after an empty match.
\<close>

datatype piece = Skip char | Match string

function pieces :: "bool \<Rightarrow> regex \<Rightarrow> cursor \<Rightarrow> piece list" where
  "pieces ci r (prev, []) = (case ends ci r (prev, []) of [] \<Rightarrow> [] | e # es \<Rightarrow> [Match []])"
| "pieces ci r (prev, c # cs) =
     (case ends ci r (prev, c # cs) of
        [] \<Rightarrow> Skip c # pieces ci r (Some c, cs)
      | e # es \<Rightarrow>
          if length (snd e) < length (c # cs)
          then Match (take (length (c # cs) - length (snd e)) (c # cs)) # pieces ci r e
          else Match [] # Skip c # pieces ci r (Some c, cs))"
  by pat_completeness auto
termination
  by (relation "measure (\<lambda>(ci, r, cur). length (snd cur))") auto

definition isMatch :: "piece \<Rightarrow> bool" where
  "isMatch p = (case p of Match m \<Rightarrow> True | Skip c \<Rightarrow> False)"

text \<open>\<^verbatim>\<open>regex.test(s)\<close>, \<^verbatim>\<open>(s.match(regex) || []).length\<close> and \<^verbatim>\<open>s.replace(regex, f)\<close> with \<^verbatim>\<open>g\<close>.\<close>

definition testRe :: "bool \<Rightarrow> regex \<Rightarrow> string \<Rightarrow> bool" where
  "testRe ci r s = list_ex isMatch (pieces ci r (None, s))"

definition countMatches :: "bool \<Rightarrow> regex \<Rightarrow> string \<Rightarrow> nat" where
  "countMatches ci r s = length (filter isMatch (pieces ci r (None, s)))"

definition replaceAll :: "bool \<Rightarrow> regex \<Rightarrow> (string \<Rightarrow> string) \<Rightarrow> string \<Rightarrow> string" where
  "replaceAll ci r f s =
     concat (map (\<lambda>p. case p of Skip c \<Rightarrow> [c] | Match m \<Rightarrow> f m) (pieces ci r (None, s)))"

text \<open>\<^verbatim>\<open>s.split(regex)\<close> for an expression that matches at least one character, as every
  use below does: the text between the matches.\<close>

fun splitPieces :: "string \<Rightarrow> piece list \<Rightarrow> string list" where
  "splitPieces seg [] = [seg]"
| "splitPieces seg (Skip c # ps) = splitPieces (seg @ [c]) ps"
| "splitPieces seg (Match m # ps) = seg # splitPieces [] ps"

definition splitRe :: "bool \<Rightarrow> regex \<Rightarrow> string \<Rightarrow> string list" where
  "splitRe ci r s = splitPieces [] (pieces ci r (None, s))"

text \<open>\<^verbatim>\<open>s.split(/\s+/)\<close>.\<close>

definition splitWhitespace :: "string \<Rightarrow> string list" where
  "splitWhitespace s = splitRe False (Plus is_space) s"

subsection \<open>llmCorefMerge and runCorefResolution (llm-coref-merge.js)\<close>

text \<open>
  The provider is a parameter: a function from the request to the response it resolves
  to, or to the error it throws. \<^verbatim>\<open>JSON.parse\<close> is a parameter as well, returning the
  parsed value or the \<^verbatim>\<open>SyntaxError\<close> it throws. Of the logging under \<open>verbose\<close> only the
  reads of \<^verbatim>\<open>error.message\<close> are kept, which can throw.
\<close>

abbreviation (input) APOS :: char where "APOS \<equiv> CHR 0x27"

abbreviation (input) NL :: char where "NL \<equiv> CHR 0x0A"

text \<open>\<^verbatim>\<open>error.message\<close> in a \<^verbatim>\<open>catch\<close> block: the message, \<^verbatim>\<open>undefined\<close> (\<open>None\<close>) for a value
  without one, and for \<^verbatim>\<open>null\<close> and \<^verbatim>\<open>undefined\<close> a \<^verbatim>\<open>TypeError\<close> that is thrown in turn (with
  the wording of Node.js).\<close>

fun readMessage :: "js_error \<Rightarrow> js_error + string option" where
  "readMessage (Error m) = Inr (Some m)"
| "readMessage (TypeError m) = Inr (Some m)"
| "readMessage ThrownValue = Inr None"
| "readMessage ThrownNull =
     Inl (TypeError (''Cannot read properties of null (reading '' @ [APOS] @ ''message'' @
            [APOS] @ '')''))"
| "readMessage ThrownUndefined =
     Inl (TypeError (''Cannot read properties of undefined (reading '' @ [APOS] @ ''message'' @
            [APOS] @ '')''))"

text \<open>A message inside a template literal.\<close>

definition showMessage :: "string option \<Rightarrow> string" where
  "showMessage m = (case m of None \<Rightarrow> ''undefined'' | Some t \<Rightarrow> t)"

record entity_name =
  ename :: string
  ementions :: nat

record llm_usage =
  prompt_tokens :: "nat option"
  completion_tokens :: "nat option"

record llm_response =
  content :: string
  usage :: "llm_usage option"

record llm_request =
  system :: string
  user_content :: string
  max_tokens :: nat
  temperature :: rat

type_synonym llm_provider = "llm_request \<Rightarrow> js_error + llm_response"

type_synonym json_parser = "string \<Rightarrow> js_error + json"

record token_count =
  input_tokens :: nat
  output_tokens :: nat

record coref_merges =
  merges :: "json list"
  tokens :: token_count
  rawResponse :: "string option"

text \<open>\<^verbatim>\<open>lines.join('\n')\<close>.\<close>

fun joinLines :: "string list \<Rightarrow> string" where
  "joinLines [] = []"
| "joinLines [l] = l"
| "joinLines (l # ls) = l @ [NL] @ joinLines ls"

definition systemPrompt :: string where
  "systemPrompt = ''You are a strict entity resolution assistant for fiction text. You identify when multiple names refer to THE EXACT SAME individual person. Be conservative - only merge when certain.''"

definition namesList :: "entity_name list \<Rightarrow> string" where
  "namesList entityNames =
     joinLines (map (\<lambda>e. ename e @ '' ('' @ show_nat (ementions e) @ '')'')
       (sort_desc ementions entityNames))"

definition userPrompt :: "entity_name list \<Rightarrow> string" where
  \<open>userPrompt entityNames = joinLines
     [''Identify which names refer to THE SAME INDIVIDUAL person.'',
      ''Return only merge groups. Skip names that are unique or uncertain.'',
      '''',
      ''Names:'',
      namesList entityNames,
      '''',
      ''STRICT RULES - read carefully:'',
      ''1. ONLY merge names that refer to the EXACT SAME individual person'',
      ''2. DO NOT merge:'',
      ''   - Family names with individuals (e.g., "Weasleys" is the family, not "Ron")'',
      ''   - Pets/creatures with their owners (e.g., "Fang" is Hagrid'' @ [APOS] @
        ''s dog, not Hagrid)'',
      ''   - Different siblings (e.g., Fred, George, Percy are DIFFERENT people)'',
      ''   - House/group names with members (e.g., "Gryffindors" is the house, not Hermione)'',
      ''   - Generic terms like "Mum", "Dad" with specific people'',
      ''3. DO merge:'',
      ''   - Title variations: "Vernon" = "Uncle Vernon" = "Mr Dursley" (same person)'',
      ''   - Name + surname: "Neville" = "Longbottom" (same person)'',
      ''   - Aliases: "Voldemort" = "You-Know-Who" (same entity)'',
      '''',
      ''When in doubt, DO NOT merge.'',
      '''',
      ''Respond in JSON only:'',
      ''{"merges": [["name1", "name2"], ["name3", "name4", "name5"]]}'']\<close>

definition llmRequest :: "entity_name list \<Rightarrow> llm_request" where
  "llmRequest entityNames =
     \<lparr>system = systemPrompt, user_content = userPrompt entityNames,
      max_tokens = 1024, temperature = 3 / 10\<rparr>"

text \<open>\<^verbatim>\<open>content.match(/\{[\s\S]*\}/)\<close>: from the first opening brace to the last closing
  brace after it.\<close>

definition jsonMatch :: "string \<Rightarrow> string option" where
  "jsonMatch c =
     (let fromBrace = dropWhile (\<lambda>x. x \<noteq> CHR ''{'') c;
          toBrace = rev (dropWhile (\<lambda>x. x \<noteq> CHR ''}'') (rev fromBrace))
      in if toBrace = [] then None else Some toBrace)"

text \<open>\<^verbatim>\<open>Array.isArray(parsed.merges)\<close>: reading a property of \<^verbatim>\<open>null\<close> throws a
  \<^verbatim>\<open>TypeError\<close>, any other value without an array under \<open>merges\<close> is rejected.\<close>

definition parsedMerges :: "json \<Rightarrow> js_error + json list" where
  "parsedMerges parsed =
     (case parsed of
        JNull \<Rightarrow> Inl (TypeError (''Cannot read properties of null (reading '' @ [APOS] @
                   ''merges'' @ [APOS] @ '')''))
      | JObj props \<Rightarrow>
          (case map_get props ''merges'' of
             Some (JArr ms) \<Rightarrow> Inr ms
           | _ \<Rightarrow> Inl (Error ''Invalid response structure: missing merges array''))
      | _ \<Rightarrow> Inl (Error ''Invalid response structure: missing merges array''))"

text \<open>\<^verbatim>\<open>n || 0\<close> on an optional count.\<close>

definition or_zero :: "nat option \<Rightarrow> nat" where
  "or_zero n = (case n of None \<Rightarrow> 0 | Some k \<Rightarrow> k)"

text \<open>The \<^verbatim>\<open>try\<close> block of \<open>llmCorefMerge\<close>.\<close>

definition callProvider ::
  "llm_provider \<Rightarrow> json_parser \<Rightarrow> entity_name list \<Rightarrow> js_error + coref_merges" where
  "callProvider llmProvider jsonParse entityNames =
     (case llmProvider (llmRequest entityNames) of
        Inl err \<Rightarrow> Inl err
      | Inr result \<Rightarrow>
          let toks = \<lparr>input_tokens = or_zero (case usage result of None \<Rightarrow> None
                                          | Some u \<Rightarrow> prompt_tokens u),
                      output_tokens = or_zero (case usage result of None \<Rightarrow> None
                                          | Some u \<Rightarrow> completion_tokens u)\<rparr>
          in case jsonMatch (content result) of
               None \<Rightarrow> Inl (Error ''No JSON found in LLM response'')
             | Some matched \<Rightarrow>
                 (case jsonParse matched of
                    Inl err \<Rightarrow> Inl err
                  | Inr parsed \<Rightarrow>
                      (case parsedMerges parsed of
                         Inl err \<Rightarrow> Inl err
                       | Inr ms \<Rightarrow>
                           Inr \<lparr>merges = ms, tokens = toks,
                                rawResponse = Some (content result)\<rparr>)))"

text \<open>Its \<^verbatim>\<open>catch\<close> block rethrows the value it caught; under \<open>verbose\<close> it first logs
  \<^verbatim>\<open>error.message\<close>, and when that read throws, the \<^verbatim>\<open>TypeError\<close> leaves the function
  instead.\<close>

definition rethrown :: "bool \<Rightarrow> js_error \<Rightarrow> js_error" where
  "rethrown verbose err =
     (if verbose then (case readMessage err of Inl typeError \<Rightarrow> typeError | Inr m \<Rightarrow> err)
      else err)"

definition llmCorefMerge ::
  "bool \<Rightarrow> llm_provider \<Rightarrow> json_parser \<Rightarrow> entity_name list \<Rightarrow> js_error + coref_merges" where
  "llmCorefMerge verbose llmProvider jsonParse entityNames =
     (if length entityNames = 0
      then Inr \<lparr>merges = [], tokens = \<lparr>input_tokens = 0, output_tokens = 0\<rparr>, rawResponse = None\<rparr>
      else
        case callProvider llmProvider jsonParse entityNames of
          Inl err \<Rightarrow> Inl (rethrown verbose err)
        | Inr r \<Rightarrow> Inr r)"

record coref_stats =
  error :: "string option"
  groupsIdentified :: nat
  entitiesMerged :: nat
  stats_appliedMerges :: "applied_merge list"
  stats_skippedMerges :: "skipped_merge list"
  llmTokensUsed :: "token_count option"

record coref_debug =
  prompt :: string
  debug_rawResponse :: "string option"
  debug_parsedMerges :: "json list"

record coref_result =
  confirmedCharacters :: "entity list"
  candidates :: "entity list"
  corefStats :: coref_stats
  debug :: "coref_debug option"

definition allEntityNames :: "entity list \<Rightarrow> entity list \<Rightarrow> entity_name list" where
  "allEntityNames confirmed cands =
     map (\<lambda>e. \<lparr>ename = canonicalName e, ementions = mentions e\<rparr>) confirmed @
     map (\<lambda>e. \<lparr>ename = canonicalName e, ementions = mentions e\<rparr>) cands"

text \<open>Whether a merged entity, or an entity it absorbed, was confirmed before.\<close>

definition wasConfirmed :: "entity list \<Rightarrow> string list \<Rightarrow> entity \<Rightarrow> bool" where
  "wasConfirmed allEntities confirmedIds e \<longleftrightarrow>
     entity_id e \<in> set confirmedIds \<or>
     list_ex (\<lambda>n. case find (\<lambda>x. canonicalName x = n) allEntities of
                     None \<Rightarrow> False
                   | Some original \<Rightarrow> entity_id original \<in> set confirmedIds)
       (or_empty (mergedFrom e))"

text \<open>The whole body runs in an \<^verbatim>\<open>async\<close> function; the only \<^verbatim>\<open>await\<close> is the call of
  \<open>llmCorefMerge\<close> inside \<^verbatim>\<open>try\<close>. The \<^verbatim>\<open>catch\<close> block logs \<^verbatim>\<open>error.message\<close> and puts it
  into the error string of the statistics it returns with the inputs; when the read
  throws, the \<^verbatim>\<open>TypeError\<close> rejects the promise of \<open>runCorefResolution\<close> itself, which is the
  result \<open>Inl\<close>.\<close>

definition runCorefResolution ::
  "bool \<Rightarrow> llm_provider \<Rightarrow> json_parser \<Rightarrow> entity list \<Rightarrow> entity list \<Rightarrow>
   js_error + coref_result" where
  "runCorefResolution verbose llmProvider jsonParse confirmed cands =
     (let names = allEntityNames confirmed cands in
      case llmCorefMerge verbose llmProvider jsonParse names of
        Inl err \<Rightarrow>
          (case readMessage err of
             Inl typeError \<Rightarrow> Inl typeError
           | Inr m \<Rightarrow>
               Inr \<lparr>confirmedCharacters = confirmed,
                    candidates = cands,
                    corefStats = \<lparr>error = Some (''LLM call failed: '' @ showMessage m),
                                   groupsIdentified = 0, entitiesMerged = 0,
                                   stats_appliedMerges = [], stats_skippedMerges = [],
                                   llmTokensUsed = None\<rparr>,
                    debug = None\<rparr>)
      | Inr corefResult \<Rightarrow>
          let allEntities = confirmed @ cands;
              confirmedIds = map entity_id confirmed;
              mergeResult = applyMerges allEntities (merges corefResult);
              mergedConfirmed = filter (wasConfirmed allEntities confirmedIds)
                                  (entities mergeResult);
              mergedCandidates = filter (\<lambda>e. \<not> wasConfirmed allEntities confirmedIds e)
                                   (entities mergeResult)
          in Inr \<lparr>confirmedCharacters = mergedConfirmed,
                  candidates = mergedCandidates,
                  corefStats =
                    \<lparr>error = None,
                     groupsIdentified = length (merges corefResult),
                     entitiesMerged =
                       fold (\<lambda>m s. s + length (merged m)) (appliedMerges mergeResult) 0,
                     stats_appliedMerges = appliedMerges mergeResult,
                     stats_skippedMerges = skippedMerges mergeResult,
                     llmTokensUsed = Some (tokens corefResult)\<rparr>,
                  debug = Some \<lparr>prompt = ''['' @ show_nat (length names) @
                                          '' entities sent to LLM]'',
                                 debug_rawResponse = rawResponse corefResult,
                                 debug_parsedMerges = merges corefResult\<rparr>\<rparr>)"

subsection \<open>Snippets (extract-snippets.js)\<close>

text \<open>A snippet's location holds either \<open>sentenceIndex\<close> or, after a merge,
  \<open>sentenceRange\<close>.\<close>

datatype sentence_loc = SentenceIndex nat | SentenceRange nat nat

record snippet_location =
  paragraphIndex :: nat
  sentence :: sentence_loc

record snippet_text =
  before :: string
  match :: string
  after :: string

record snippet_mention =
  mention_entity :: string
  mention_variant :: string
  mention_sentence :: string

record snippet =
  snip_id :: string
  snip_book :: nat
  snip_chapter :: nat
  snip_chapterTitle :: string
  snip_location :: snippet_location
  snip_text :: snippet_text
  snip_entities :: "string list"
  snip_mentions :: "snippet_mention list"

subsection \<open>buildCooccurrenceIndex (build-indices.js)\<close>

text \<open>
  The index is a plain object whose keys all contain \<open>+\<close>, so it keeps them in insertion
  order. \<^verbatim>\<open>sort()\<close> without a comparator orders strings by code units, which is the
  lexicographic order of \<open>string\<close>.
\<close>

text \<open>All pairs \<open>(entities[i], entities[j])\<close> with \<open>i < j\<close>, in the order of the two loops.\<close>

fun pairs :: "'a list \<Rightarrow> ('a \<times> 'a) list" where
  "pairs [] = []"
| "pairs (x # xs) = map (Pair x) xs @ pairs xs"

definition pairKey :: "string \<times> string \<Rightarrow> string" where
  "pairKey p = fst p @ ''+'' @ snd p"

text \<open>\<^verbatim>\<open>if (!index[key]) index[key] = []; index[key].push(id)\<close>.\<close>

definition indexPush :: "string \<Rightarrow> string \<Rightarrow> (string \<times> string list) list \<Rightarrow> (string \<times> string list) list" where
  "indexPush key sid index =
     (case map_get index key of
        None \<Rightarrow> map_set key [sid] index
      | Some ids \<Rightarrow> map_set key (ids @ [sid]) index)"

definition addSnippetPairs :: "snippet \<Rightarrow> (string \<times> string list) list \<Rightarrow> (string \<times> string list) list" where
  "addSnippetPairs s index =
     fold (\<lambda>p idx. indexPush (pairKey p) (snip_id s) idx) (pairs (sort (snip_entities s))) index"

definition buildCooccurrenceIndex :: "snippet list \<Rightarrow> (string \<times> string list) list" where
  "buildCooccurrenceIndex snippets =
     map (\<lambda>(key, ids). (key, sort ids)) (fold addSnippetPairs snippets [])"

text \<open>The ids one snippet pushes under a key, used to state what a key holds.\<close>

definition snippetIds :: "string \<Rightarrow> snippet \<Rightarrow> string list" where
  "snippetIds k s =
     map (\<lambda>p. snip_id s) (filter (\<lambda>p. pairKey p = k) (pairs (sort (snip_entities s))))"

text \<open>A snippet as \<open>extractSnippets\<close> builds it, with empty context.\<close>

definition plainSnippet :: "string \<Rightarrow> nat \<Rightarrow> nat \<Rightarrow> nat \<Rightarrow> string list \<Rightarrow> snippet" where
  "plainSnippet i ch par sent ents =
     \<lparr>snip_id = i, snip_book = 1, snip_chapter = ch, snip_chapterTitle = ''The Arrival'',
      snip_location = \<lparr>paragraphIndex = par, sentence = SentenceIndex sent\<rparr>,
      snip_text = \<lparr>before = '''', match = ''They met.'', after = ''''\<rparr>,
      snip_entities = ents,
      snip_mentions = map (\<lambda>e. \<lparr>mention_entity = e, mention_variant = e,
                                  mention_sentence = ''match''\<rparr>) ents\<rparr>"

subsection \<open>dedupeSnippets (dedupe-snippets.js)\<close>

text \<open>
  \<open>groupBy\<close> collects the items under the key \<^verbatim>\<open>`${chapter}_${paragraphIndex}`\<close> in a plain
  object. Two snippets have the same key string exactly when they agree on chapter
  and paragraph, and no such key is an array index, so the groups are kept here under
  the pair, in the order in which the keys first occur.
\<close>

definition groupBy :: "('a \<Rightarrow> 'k) \<Rightarrow> 'a list \<Rightarrow> ('k \<times> 'a list) list" where
  "groupBy keyFn items =
     fold (\<lambda>item groups.
             case map_get groups (keyFn item) of
               None \<Rightarrow> map_set (keyFn item) [item] groups
             | Some g \<Rightarrow> map_set (keyFn item) (g @ [item]) groups)
       items []"

definition abbrevsRe :: regex where
  "abbrevsRe = Seq (alts [Lit ''Mr'', Lit ''Mrs'', Lit ''Ms'', Lit ''Dr'', Lit ''Prof'', Lit ''Sr'',
                        Lit ''Jr'', Lit ''St'', Lit ''vs'', Lit ''etc'', Lit ''e.g'', Lit ''i.e''])
                 (Lit ''.'')"

text \<open>\<^verbatim>\<open>match.replace('.', '\x00')\<close>: the first period only.\<close>

fun protectPeriod :: "string \<Rightarrow> string" where
  "protectPeriod [] = []"
| "protectPeriod (c # cs) = (if c = CHR ''.'' then CHR 0x00 # cs else c # protectPeriod cs)"

definition splitIntoSentences :: "string \<Rightarrow> string list" where
  "splitIntoSentences t =
     (if trim t = [] then []
      else
        let protected = replaceAll True abbrevsRe protectPeriod t;
            parts = splitRe False (Seq (Behind (\<lambda>c. c \<in> set ''.!?'')) (Plus is_space)) protected
        in filter (\<lambda>s. length s > 0)
             (map (\<lambda>s. trim (map (\<lambda>c. if c = CHR 0x00 then CHR ''.'' else c) s)) parts))"

definition combineText :: "string list \<Rightarrow> string" where
  "combineText texts =
     (let nonEmpty = filter (\<lambda>t. length (trim t) > 0) texts;
          result = fold (\<lambda>sentence seen. if sentence \<in> set seen then seen else seen @ [sentence])
                     (concat (map splitIntoSentences nonEmpty)) []
      in join '' '' result)"

definition startSentence :: "snippet \<Rightarrow> nat" where
  "startSentence s =
     (case sentence (snip_location s) of SentenceIndex i \<Rightarrow> i | SentenceRange a b \<Rightarrow> a)"

definition endSentence :: "snippet \<Rightarrow> nat" where
  "endSentence s =
     (case sentence (snip_location s) of SentenceIndex i \<Rightarrow> i | SentenceRange a b \<Rightarrow> b)"

text \<open>\<^verbatim>\<open>[...new Set(xs)]\<close>: the first occurrence of each element, in order.\<close>

definition uniq :: "'a list \<Rightarrow> 'a list" where
  "uniq xs = fold (\<lambda>x seen. if x \<in> set seen then seen else seen @ [x]) xs []"

definition mergeSnippets :: "snippet \<Rightarrow> snippet \<Rightarrow> snippet" where
  "mergeSnippets a b =
     a\<lparr>snip_text :=
         \<lparr>before = before (snip_text a),
          match = combineText [match (snip_text a), after (snip_text a),
                               before (snip_text b), match (snip_text b)],
          after = after (snip_text b)\<rparr>,
       snip_entities := uniq (snip_entities a @ snip_entities b),
       snip_mentions := snip_mentions a @ snip_mentions b,
       snip_location :=
         \<lparr>paragraphIndex = paragraphIndex (snip_location a),
          sentence = SentenceRange (startSentence a) (endSentence b)\<rparr>\<rparr>"

text \<open>The loop over one sorted group, with \<open>current\<close> as its state.\<close>

fun mergeRun :: "snippet \<Rightarrow> snippet list \<Rightarrow> snippet list" where
  "mergeRun current [] = [current]"
| "mergeRun current (next # rest) =
     (let gap = int (startSentence next) - int (endSentence current)
      in if gap \<le> 2 then mergeRun (mergeSnippets current next) rest
         else current # mergeRun next rest)"

definition dedupeGroup :: "snippet list \<Rightarrow> snippet list" where
  "dedupeGroup g = (let ordered = sort_key startSentence g in mergeRun (hd ordered) (tl ordered))"

text \<open>\<^verbatim>\<open>String(i).padStart(4, '0')\<close>.\<close>

definition padStart4 :: "string \<Rightarrow> string" where
  "padStart4 s = replicate (4 - length s) (CHR ''0'') @ s"

definition documentKey :: "snippet \<Rightarrow> nat \<times> nat \<times> nat" where
  "documentKey s = (snip_chapter s, paragraphIndex (snip_location s), startSentence s)"

definition renumber :: "snippet list \<Rightarrow> snippet list" where
  "renumber ss = map (\<lambda>(i, s). s\<lparr>snip_id := ''s_'' @ padStart4 (show_nat i)\<rparr>) (enumerate 0 ss)"

definition dedupeSnippets :: "snippet list \<Rightarrow> snippet list" where
  "dedupeSnippets snippets =
     (if length snippets = 0 then []
      else
        let groups = groupBy (\<lambda>s. (snip_chapter s, paragraphIndex (snip_location s))) snippets;
            deduped = concat (map (\<lambda>(k, g). dedupeGroup g) groups)
        in renumber (sort_key documentKey deduped))"

text \<open>The sentence gap between two consecutive snippets, as the loop computes it.\<close>

definition gapOver2 :: "snippet \<Rightarrow> snippet \<Rightarrow> bool" where
  "gapOver2 a b \<longleftrightarrow> 2 < int (startSentence b) - int (endSentence a)"

text \<open>The snippets of one chapter and paragraph, in the order of the list.\<close>

definition inParagraph :: "nat \<times> nat \<Rightarrow> snippet list \<Rightarrow> snippet list" where
  "inParagraph k ss = filter (\<lambda>s. (snip_chapter s, paragraphIndex (snip_location s)) = k) ss"

subsection \<open>Extraction results and entity groups\<close>

record mention =
  m_form :: string
  normalized :: string
  isPossessive :: bool
  m_hasTitle :: bool
  m_titleType :: "string option"
  isAtSentenceStart :: bool
  m_chapter :: nat
  m_paragraph :: nat
  m_line :: nat

record extraction_metadata =
  md_totalMentions :: nat
  uniqueForms :: nat
  chaptersProcessed :: nat

text \<open>The four dictionaries are plain objects filled in the order of the mentions; their
  keys start with a capital letter, so none is a property of \<^verbatim>\<open>Object.prototype\<close>.\<close>

record extraction_result =
  er_mentions :: "mention list"
  mentionCounts :: "(string \<times> nat) list"
  possessiveCounts :: "(string \<times> nat) list"
  sentenceStartCounts :: "(string \<times> nat) list"
  firstAppearances :: "(string \<times> first_appearance) list"
  metadata :: extraction_metadata

text \<open>\<^verbatim>\<open>counts[key] || 0\<close>.\<close>

definition countOf :: "(string \<times> nat) list \<Rightarrow> string \<Rightarrow> nat" where
  "countOf counts key = (case map_get counts key of None \<Rightarrow> 0 | Some n \<Rightarrow> n)"

record group_variant = variant +
  hasTitle :: bool
  titleType :: "string option"

datatype evidence =
    FullNameEvidence (parts: "string list") (titlePatterns: "string list option")
  | TitledNameEvidence (title: string) (evidenceTitleType: "string option")
  | SingleNameEvidence (hasPossessive: bool)

record entity_group =
  g_canonicalName :: string
  g_variants :: "group_variant list"
  g_evidence :: evidence
  g_firstAppearance :: first_appearance
  totalMentions :: nat
  g_sentenceStartRatio :: "rat option"

text \<open>\<^verbatim>\<open>Math.round(x * 100) / 100\<close> on an exact ratio. The source computes in IEEE
  doubles, so where the exact product ends in a half its rounding can fall the other
  way: 23/40 gives 0.57 in the source and 0.58 here.\<close>

definition round2 :: "rat \<Rightarrow> rat" where
  "round2 x = of_int \<lfloor>x * 100 + 1 / 2\<rfloor> / 100"

subsection \<open>filterJunk (filter-junk.js)\<close>

record exclusion =
  ex_reason :: string
  ex_evidence :: string
  ex_sentenceStartRatio :: rat

record excluded_group =
  excluded_text :: string
  excluded_mentions :: nat
  excluded_reason :: string
  excluded_evidence :: string
  excluded_sentenceStartRatio :: rat

record filter_result =
  clean :: "entity_group list"
  excluded :: "excluded_group list"

definition getSentenceStartCount :: "entity_group \<Rightarrow> (string \<times> nat) list \<Rightarrow> nat" where
  "getSentenceStartCount g ssCounts =
     fold (\<lambda>v n. n + countOf ssCounts (form v)) (g_variants g) 0"

text \<open>For each first word of a two-word group, the number of other such groups.\<close>

definition buildTwoWordFirstWordMap :: "entity_group list \<Rightarrow> (string \<times> nat) list" where
  "buildTwoWordFirstWordMap groups =
     (let firstWordCounts =
            fold (\<lambda>g m. let ws = splitWhitespace (g_canonicalName g)
                          in if length ws = 2 then map_set (hd ws) (countOf m (hd ws) + 1) m else m)
              groups []
      in fold (\<lambda>(w, n) res. map_set w (n - 1) res) firstWordCounts [])"

text \<open>The three patterns of \<open>detectListSeparation\<close>, all with the flags \<^verbatim>\<open>gi\<close>; the names
  are escaped, so they are literals.\<close>

definition fullNameRe :: "string \<Rightarrow> regex" where
  "fullNameRe fullName = seqs [WordBoundary, Lit fullName, WordBoundary]"

definition andPatternRe :: "string \<Rightarrow> string \<Rightarrow> regex" where
  "andPatternRe word1 word2 =
     seqs [WordBoundary, Lit word1, Star is_space, Opt (Lit '',''), Plus is_space,
           Alt (Lit ''and'') (Lit ''or''), Plus is_space, Lit word2, WordBoundary]"

definition commaListRe :: "string \<Rightarrow> string \<Rightarrow> regex" where
  "commaListRe word1 word2 =
     seqs [WordBoundary, Lit word1, Star is_space, Lit '','', Star is_space, Lit word2,
           Star is_space, Lit '','']"

definition countPattern :: "string \<Rightarrow> regex \<Rightarrow> nat" where
  "countPattern t pattern = countMatches True pattern t"

record list_separation =
  isListSeparated :: bool
  ls_evidence :: "string option"

definition detectListSeparation :: "string \<Rightarrow> string list \<Rightarrow> string \<Rightarrow> list_separation" where
  \<open>detectListSeparation fullName ws fullText =
     (let word1 = ws ! 0; word2 = ws ! 1;
          fullNameCount = countPattern fullText (fullNameRe fullName);
          andPatternCount = countPattern fullText (andPatternRe word1 word2);
          commaListCount = countPattern fullText (commaListRe word1 word2)
      in if andPatternCount \<ge> 3 \<and> andPatternCount > fullNameCount
         then \<lparr>isListSeparated = True,
               ls_evidence = Some (''"'' @ word1 @ '' and '' @ word2 @ ''" pattern appears '' @
                 show_nat andPatternCount @ '' times vs "'' @ fullName @ ''" '' @
                 show_nat fullNameCount @ '' times'')\<rparr>
         else if commaListCount \<ge> 3 \<and> commaListCount > fullNameCount
         then \<lparr>isListSeparated = True,
               ls_evidence = Some (''"'' @ word1 @ '', '' @ word2 @ ''," list pattern appears '' @
                 show_nat commaListCount @ '' times'')\<rparr>
         else \<lparr>isListSeparated = False, ls_evidence = None\<rparr>)\<close>

text \<open>\<^verbatim>\<open>(ratio * 100).toFixed(0)\<close> on an exact ratio; the source's double can fall on the
  other side of a half (23/40 gives 57 in the source and 58 here). The text is only
  part of the evidence string.\<close>

definition percent :: "rat \<Rightarrow> string" where
  "percent x = show_nat (nat \<lfloor>x * 100 + 1 / 2\<rfloor>)"

definition sentenceStartRatioOf :: "entity_group \<Rightarrow> (string \<times> nat) list \<Rightarrow> rat" where
  "sentenceStartRatioOf g ssCounts =
     (if totalMentions g > 0
      then of_nat (getSentenceStartCount g ssCounts) / of_nat (totalMentions g) else 0)"

text \<open>The heuristics in their order; the first that applies excludes the group.\<close>

definition checkForExclusion ::
  "entity_group \<Rightarrow> (string \<times> nat) list \<Rightarrow> (string \<times> nat) list \<Rightarrow> (string \<times> nat) list \<Rightarrow>
   string \<Rightarrow> exclusion option" where
  \<open>checkForExclusion g ssCounts mCounts twoWordFirstWords fullText =
     (let nm = g_canonicalName g;
          total = totalMentions g;
          ssRatio = sentenceStartRatioOf g ssCounts;
          ws = splitWhitespace nm
      in if ssRatio > 1 / 2 \<and> total \<ge> 5
         then Some \<lparr>ex_reason = ''sentence_start_ratio_high'',
                    ex_evidence = percent ssRatio @ ''% of mentions at sentence start'',
                    ex_sentenceStartRatio = round2 ssRatio\<rparr>
         else if length ws = 2 \<and> countOf twoWordFirstWords (ws ! 0) \<ge> 3
         then Some \<lparr>ex_reason = ''truncated_phrase'',
                    ex_evidence = ''"'' @ ws ! 0 @ ''" appears as first word in '' @
                      show_nat (countOf twoWordFirstWords (ws ! 0) + 1) @ '' two-word entities'',
                    ex_sentenceStartRatio = round2 ssRatio\<rparr>
         else if length ws = 2 \<and> total < 10 \<and> isListSeparated (detectListSeparation nm ws fullText)
         then Some \<lparr>ex_reason = ''list_separated_names'',
                    ex_evidence = or_empty (ls_evidence (detectListSeparation nm ws fullText)),
                    ex_sentenceStartRatio = round2 ssRatio\<rparr>
         else if length ws = 2 \<and> total < 30 \<and>
                 countOf mCounts (ws ! 0) \<ge> 40 \<and> countOf mCounts (ws ! 1) \<ge> 40
         then Some \<lparr>ex_reason = ''both_words_high_frequency'',
                    ex_evidence = ''Both "'' @ ws ! 0 @ ''" ('' @ show_nat (countOf mCounts (ws ! 0)) @
                      '') and "'' @ ws ! 1 @ ''" ('' @ show_nat (countOf mCounts (ws ! 1)) @
                      '') are high-frequency standalone entities'',
                    ex_sentenceStartRatio = round2 ssRatio\<rparr>
         else None)\<close>

text \<open>The record of an excluded group.\<close>

definition excludedEntry :: "entity_group \<Rightarrow> exclusion \<Rightarrow> excluded_group" where
  "excludedEntry g exclusion =
     \<lparr>excluded_text = g_canonicalName g,
      excluded_mentions = totalMentions g,
      excluded_reason = ex_reason exclusion,
      excluded_evidence = ex_evidence exclusion,
      excluded_sentenceStartRatio = ex_sentenceStartRatio exclusion\<rparr>"

definition filterStep ::
  "(string \<times> nat) list \<Rightarrow> (string \<times> nat) list \<Rightarrow> (string \<times> nat) list \<Rightarrow> string \<Rightarrow>
   entity_group \<Rightarrow> filter_result \<Rightarrow> filter_result" where
  "filterStep ssCounts mCounts twoWordFirstWords fullText g res =
     (case checkForExclusion g ssCounts mCounts twoWordFirstWords fullText of
        Some exclusion \<Rightarrow>
          res\<lparr>excluded := excluded res @ [excludedEntry g exclusion]\<rparr>
      | None \<Rightarrow>
          res\<lparr>clean := clean res @
                [g\<lparr>g_sentenceStartRatio := Some (round2 (sentenceStartRatioOf g ssCounts))\<rparr>]\<rparr>)"

definition filterJunk :: "entity_group list \<Rightarrow> extraction_result \<Rightarrow> string \<Rightarrow> filter_result" where
  "filterJunk entityGroups extractionResult fullText =
     fold (filterStep (sentenceStartCounts extractionResult) (mentionCounts extractionResult)
             (buildTwoWordFirstWordMap entityGroups) fullText)
       entityGroups \<lparr>clean = [], excluded = []\<rparr>"




definition emptyExtraction :: extraction_result where
  "emptyExtraction =
     \<lparr>er_mentions = [], mentionCounts = [], possessiveCounts = [], sentenceStartCounts = [],
      firstAppearances = [],
      metadata = \<lparr>md_totalMentions = 0, uniqueForms = 0, chaptersProcessed = 0\<rparr>\<rparr>"

subsection \<open>tierEntities (tier-entities.js)\<close>

text \<open>
  \<open>titlePrefixes\<close> is the set of lower-cased patterns of \<^verbatim>\<open>config/title-patterns.json\<close>,
  a parameter here.
\<close>

record tier_options =
  minCandidateMentions :: nat
  minPossessiveForConfirm :: nat
  minMentionsForPossessiveConfirm :: nat
  minIndependentPartMentions :: nat

definition defaultTierOptions :: tier_options where
  "defaultTierOptions =
     \<lparr>minCandidateMentions = 8, minPossessiveForConfirm = 5,
      minMentionsForPossessiveConfirm = 20, minIndependentPartMentions = 10\<rparr>"

record tier_result =
  tier_confirmedCharacters :: "entity list"
  tier_candidates :: "entity list"

text \<open>\<^verbatim>\<open>/^(Mr|Mrs|Ms|Miss|Madam|Uncle|Aunt|Sir|Lord|Lady|Professor|Dr)\.?$/i\<close> and the same
  followed by \<^verbatim>\<open>\s+[A-Z]\<close>, where \<^verbatim>\<open>[A-Z]\<close> under the flag \<^verbatim>\<open>i\<close> is any letter.\<close>

definition titleAlternatives :: regex where
  "titleAlternatives =
     alts [Lit ''Mr'', Lit ''Mrs'', Lit ''Ms'', Lit ''Miss'', Lit ''Madam'', Lit ''Uncle'',
           Lit ''Aunt'', Lit ''Sir'', Lit ''Lord'', Lit ''Lady'', Lit ''Professor'', Lit ''Dr'']"

definition bareTitleRe :: regex where
  "bareTitleRe = seqs [Bos, titleAlternatives, Opt (Lit ''.''), Eos]"

definition titleLetterRe :: regex where
  "titleLetterRe =
     seqs [Bos, titleAlternatives, Opt (Lit ''.''), Plus is_space, Cls is_letter, Eos]"

text \<open>\<^verbatim>\<open>s.replace(/\.$/, '')\<close>.\<close>

definition dropTrailingPeriod :: "string \<Rightarrow> string" where
  "dropTrailingPeriod s = (if s \<noteq> [] \<and> last s = CHR ''.'' then butlast s else s)"

definition checkTier1Qualification ::
  "string set \<Rightarrow> entity_group \<Rightarrow> (string \<times> nat) list \<Rightarrow> (string \<times> nat) list \<Rightarrow>
   (string \<times> nat) list \<Rightarrow> nat \<Rightarrow> nat \<Rightarrow> nat \<Rightarrow> string option" where
  "checkTier1Qualification titlePrefixes g singleWordCounts mCounts possCounts
     minPossessive minMentions minPartMentions =
     (let nm = g_canonicalName g;
          ws = splitWhitespace nm
      in if testRe True bareTitleRe nm then None
         else if testRe True titleLetterRe nm then None
         else if (case g_evidence g of
                    FullNameEvidence ps tps \<Rightarrow> length (or_empty tps) > 0
                  | TitledNameEvidence t tt \<Rightarrow> True
                  | SingleNameEvidence hp \<Rightarrow> False)
         then Some ''title_pattern''
         else if length ws \<ge> 1 \<and> dropTrailingPeriod (toLowerCase (ws ! 0)) \<in> titlePrefixes
         then Some ''title_pattern''
         else if length ws = 2 \<and> countOf singleWordCounts (ws ! 0) \<ge> minPartMentions \<and>
                 countOf singleWordCounts (ws ! 1) \<ge> minPartMentions
         then Some ''full_name_both_parts_independent''
         else if length ws = 1 \<and> totalMentions g \<ge> minMentions \<and>
                 countOf possCounts nm \<ge> minPossessive
         then Some ''single_name_with_possessive''
         else if length ws = 2 \<and>
                 list_ex (\<lambda>v. length (splitWhitespace (form v)) = 1 \<and> count v \<ge> minMentions \<and>
                               countOf possCounts (form v) \<ge> minPossessive) (g_variants g)
         then Some ''variant_with_possessive''
         else None)"

definition buildSingleWordCounts :: "entity_group list \<Rightarrow> (string \<times> nat) list" where
  "buildSingleWordCounts groups =
     fold (\<lambda>g counts. if length (splitWhitespace (g_canonicalName g)) = 1
                        then map_set (g_canonicalName g) (totalMentions g) counts else counts)
       groups []"

definition possessiveSuffix :: string where
  "possessiveSuffix = [APOS, CHR ''s'']"

definition generateCandidateNotes :: "entity_group \<Rightarrow> string" where
  "generateCandidateNotes g =
     (let ws = splitWhitespace (g_canonicalName g);
          notes1 =
            (if length ws = 1
             then [if list_ex (\<lambda>v. endsWith (form v) possessiveSuffix) (g_variants g)
                   then ''Has possessive form'' else ''No possessive form''] @
                  (if totalMentions g \<ge> 50 then [''High frequency single word''] else [])
             else [show_nat (length ws) @ ''-word name'']);
          hasPlural = list_ex (\<lambda>v. endsWith (form v) ''s'' \<and> \<not> endsWith (form v) possessiveSuffix \<and>
                                     form v \<noteq> g_canonicalName g) (g_variants g);
          notes2 = notes1 @ (if hasPlural then [''Has plural form''] else []);
          joined = join '', '' notes2
      in if joined = [] then ''Needs review'' else joined)"

text \<open>\<^verbatim>\<open>name.toLowerCase().replace(/[^a-z0-9]+/g, '_').replace(/^_|_$/g, '')\<close>.\<close>

definition generateEntityId :: "string \<Rightarrow> string" where
  "generateEntityId nm =
     replaceAll False (Alt (Seq Bos (Lit ''_'')) (Seq (Lit ''_'') Eos)) (\<lambda>m. [])
       (replaceAll False (Plus (\<lambda>c. \<not> (is_lower c \<or> is_digit c))) (\<lambda>m. ''_'')
          (toLowerCase nm))"

definition plainVariant :: "group_variant \<Rightarrow> variant" where
  "plainVariant v = \<lparr>form = form v, count = count v\<rparr>"

definition confirmedEntity :: "entity_group \<Rightarrow> string \<Rightarrow> entity" where
  "confirmedEntity g why =
     \<lparr>entity_id = generateEntityId (g_canonicalName g),
      canonicalName = g_canonicalName g,
      mentions = totalMentions g,
      variants = Some (map plainVariant (g_variants g)),
      qualifiedBy = Some why,
      sentenceStartRatio = None,
      entity_notes = None,
      mergedFrom = None,
      firstAppearance = Some (g_firstAppearance g)\<rparr>"

definition candidateEntity :: "entity_group \<Rightarrow> entity" where
  "candidateEntity g =
     \<lparr>entity_id = generateEntityId (g_canonicalName g),
      canonicalName = g_canonicalName g,
      mentions = totalMentions g,
      variants = Some (map plainVariant (g_variants g)),
      qualifiedBy = None,
      sentenceStartRatio = Some (case g_sentenceStartRatio g of None \<Rightarrow> 0 | Some r \<Rightarrow> r),
      entity_notes = Some (generateCandidateNotes g),
      mergedFrom = None,
      firstAppearance = Some (g_firstAppearance g)\<rparr>"

definition tierStep ::
  "string set \<Rightarrow> (string \<times> nat) list \<Rightarrow> (string \<times> nat) list \<Rightarrow> (string \<times> nat) list \<Rightarrow>
   tier_options \<Rightarrow> entity_group \<Rightarrow> tier_result \<Rightarrow> tier_result" where
  "tierStep titlePrefixes singleWordCounts mCounts possCounts opts g res =
     (case checkTier1Qualification titlePrefixes g singleWordCounts mCounts possCounts
             (minPossessiveForConfirm opts) (minMentionsForPossessiveConfirm opts)
             (minIndependentPartMentions opts) of
        Some why \<Rightarrow>
          res\<lparr>tier_confirmedCharacters := tier_confirmedCharacters res @ [confirmedEntity g why]\<rparr>
      | None \<Rightarrow>
          if totalMentions g \<ge> minCandidateMentions opts
          then res\<lparr>tier_candidates := tier_candidates res @ [candidateEntity g]\<rparr>
          else res)"

definition tierEntities ::
  "string set \<Rightarrow> entity_group list \<Rightarrow> extraction_result \<Rightarrow> tier_options \<Rightarrow> tier_result" where
  "tierEntities titlePrefixes cleanGroups extractionResult opts =
     (let res = fold (tierStep titlePrefixes (buildSingleWordCounts cleanGroups)
                        (mentionCounts extractionResult) (possessiveCounts extractionResult) opts)
                  cleanGroups \<lparr>tier_confirmedCharacters = [], tier_candidates = []\<rparr>
      in \<lparr>tier_confirmedCharacters = sort_desc mentions (tier_confirmedCharacters res),
          tier_candidates = sort_desc mentions (tier_candidates res)\<rparr>)"

text \<open>The names the disqualification is about, in the words of the specification: a title
  word alone, with or without a period, or a title followed by a single capital
  letter.\<close>

definition titleWords :: "string list" where
  "titleWords = [''Mr'', ''Mrs'', ''Ms'', ''Miss'', ''Madam'', ''Uncle'', ''Aunt'', ''Sir'',
                 ''Lord'', ''Lady'', ''Professor'', ''Dr'']"

definition bareTitleName :: "string \<Rightarrow> bool" where
  "bareTitleName nm \<longleftrightarrow> list_ex (\<lambda>t. nm = t \<or> nm = t @ ''.'') titleWords"

definition titleInitialName :: "string \<Rightarrow> bool" where
  "titleInitialName nm \<longleftrightarrow>
     list_ex (\<lambda>t. list_ex (\<lambda>c. nm = t @ '' '' @ [c] \<or> nm = t @ ''. '' @ [c]) upperChars)
       titleWords"

text \<open>A group with every kind of evidence for the first tier, under a bare title.\<close>

definition bareTitleGroup :: entity_group where
  "bareTitleGroup =
     \<lparr>g_canonicalName = ''Professor'',
      g_variants = [\<lparr>form = ''Professor McGonagall'', count = 30, hasTitle = True,
                     titleType = Some ''academic''\<rparr>,
                    \<lparr>form = ''Professor'', count = 40, hasTitle = False, titleType = None\<rparr>],
      g_evidence = TitledNameEvidence ''Professor'' (Some ''academic''),
      g_firstAppearance = \<lparr>fa_chapter = 1, fa_paragraph = 2, fa_form = Some ''Professor''\<rparr>,
      totalMentions = 70,
      g_sentenceStartRatio = Some 0\<rparr>"

subsection \<open>extractProperNouns (extract-proper-nouns.js)\<close>

text \<open>
  The stop words, the chapter start patterns and the title patterns come from
  \<^verbatim>\<open>config/*.json\<close> and are parameters: \<open>stopwordSet\<close> and \<open>chapterPatterns\<close> hold the
  lower-cased entries, \<open>titlePatterns\<close> the pairs of a pattern and its optional type.
\<close>

record config =
  stopwordSet :: "string set"
  chapterPatterns :: "string set"
  titlePatterns :: "(string \<times> string option) list"

definition titlePrefixesOf :: "config \<Rightarrow> string set" where
  "titlePrefixesOf cfg = set (map (\<lambda>p. toLowerCase (fst p)) (titlePatterns cfg))"

text \<open>\<open>normalizeApostrophes\<close> replaces the curly and modifier apostrophes by the straight
  one; on ASCII text it changes nothing.\<close>

definition normalizeApostrophes :: "string \<Rightarrow> string" where
  "normalizeApostrophes s = s"

text \<open>\<^verbatim>\<open>/x$/i.test(s)\<close> for a lower-case suffix, and \<^verbatim>\<open>s.replace(/'s$/i, '')\<close>.\<close>

definition endsWithCI :: "string \<Rightarrow> string \<Rightarrow> bool" where
  "endsWithCI s suffix = endsWith (toLowerCase s) suffix"

definition stripPossessive :: "string \<Rightarrow> string" where
  "stripPossessive s = (if endsWithCI s possessiveSuffix then take (length s - 2) s else s)"

definition pronouns :: "string list" where
  "pronouns = [''he'', ''she'', ''it'', ''that'', ''what'', ''who'', ''there'', ''here'', ''where'']"

definition isContraction :: "string \<Rightarrow> bool" where
  "isContraction word =
     (if word = [] then False
      else
        let normalized = normalizeApostrophes word in
        if endsWithCI normalized possessiveSuffix
        then toLowerCase (stripPossessive normalized) \<in> set pronouns
        else list_ex (\<lambda>suffix. endsWithCI normalized (APOS # suffix))
               [''d'', ''m'', ''ll'', ''re'', ''ve'', ''t''])"

text \<open>\<^verbatim>\<open>/[.!?]["']?$/\<close>.\<close>

definition endsSentence :: "string \<Rightarrow> bool" where
  \<open>endsSentence word \<longleftrightarrow>
     word \<noteq> [] \<and>
     (last word \<in> set ''.!?'' \<or>
      (last word \<in> {CHR 0x22, APOS} \<and> butlast word \<noteq> [] \<and> last (butlast word) \<in> set ''.!?''))\<close>

definition cleanToken :: "string \<Rightarrow> string" where
  "cleanToken word =
     (if word = [] then []
      else
        let cleaned = normalizeApostrophes word;
            keep = (\<lambda>c. is_letter c \<or> c = APOS);
            cleaned1 = dropWhile (\<lambda>c. \<not> keep c) cleaned;
            cleaned2 = rev (dropWhile (\<lambda>c. \<not> keep c) (rev cleaned1))
        in dropTrailingPeriod cleaned2)"

definition isCapitalized :: "string \<Rightarrow> bool" where
  "isCapitalized word \<longleftrightarrow> word \<noteq> [] \<and> is_upper (hd word)"

definition isStopword :: "config \<Rightarrow> string \<Rightarrow> bool" where
  "isStopword cfg word \<longleftrightarrow>
     toLowerCase (normalizeApostrophes word) \<in> stopwordSet cfg \<or> toLowerCase word \<in> stopwordSet cfg"

text \<open>\<^verbatim>\<open>s.includes(t)\<close>.\<close>

fun includesStr :: "string \<Rightarrow> string \<Rightarrow> bool" where
  "includesStr [] t = (t = [])"
| "includesStr (c # cs) t = (take (length t) (c # cs) = t \<or> includesStr cs t)"

record proper_noun =
  pn_form :: string
  pn_normalized :: string
  pn_isPossessive :: bool
  pn_hasTitle :: bool
  pn_titleType :: "string option"
  pn_isAtSentenceStart :: bool
  wordCount :: nat
  endIndex :: nat

text \<open>The loop of the branch without a title: at most two capitalized words from
  \<open>startIndex\<close> on, a possessive ending the sequence. It returns the components and
  \<open>endIndex\<close>.\<close>

function collectWords ::
  "config \<Rightarrow> string list \<Rightarrow> nat \<Rightarrow> nat \<Rightarrow> string list \<Rightarrow> nat \<Rightarrow> string list \<times> nat" where
  "collectWords cfg ws startIndex i components endIdx =
     (if i < length ws \<and> length components < 2
      then
        let rawWord = ws ! i;
            word = cleanToken rawWord
        in if word = [] then (components, endIdx)
           else if isContraction rawWord then (components, endIdx)
           else if i > startIndex \<and> endsSentence (ws ! (i - 1)) then (components, endIdx)
           else
             let possessive = includesStr rawWord possessiveSuffix \<and> \<not> isContraction rawWord;
                 baseWord = stripPossessive word
             in if isCapitalized baseWord \<and> \<not> isStopword cfg baseWord
                then if possessive then (components @ [baseWord @ possessiveSuffix], i)
                     else collectWords cfg ws startIndex (Suc i) (components @ [word]) i
                else (components, endIdx)
      else (components, endIdx))"
  by pat_completeness auto
termination
  by (relation "measure (\<lambda>(cfg, ws, startIndex, i, components, endIdx). length ws - i)") auto

definition extractProperNounSequence :: "config \<Rightarrow> string list \<Rightarrow> nat \<Rightarrow> proper_noun option" where
  "extractProperNounSequence cfg ws startIndex =
     (let firstWord = cleanToken (ws ! startIndex);
          firstWordLower = dropTrailingPeriod (toLowerCase firstWord);
          isTitle = firstWordLower \<in> titlePrefixesOf cfg;
          tType = (if isTitle
                   then (case find (\<lambda>p. toLowerCase (fst p) = firstWordLower) (titlePatterns cfg) of
                           Some (pat, Some ty) \<Rightarrow> if ty = [] then Some ''honorific'' else Some ty
                         | _ \<Rightarrow> Some ''honorific'')
                   else None);
          (components, endIdx) =
            (if isTitle
             then
               if startIndex + 1 < length ws
               then
                 let nextWord = cleanToken (ws ! (startIndex + 1))
                 in if nextWord \<noteq> [] \<and> isCapitalized nextWord \<and> \<not> isStopword cfg nextWord \<and>
                       \<not> isContraction (ws ! (startIndex + 1))
                    then ([firstWord, nextWord], startIndex + 1)
                    else ([firstWord], startIndex)
               else ([firstWord], startIndex)
             else collectWords cfg ws startIndex startIndex [] startIndex)
      in if length components = 0 then None
         else
           let form = join '' '' components;
               normalizedForm = dropTrailingPeriod (stripPossessive form)
           in if toLowerCase normalizedForm \<in> chapterPatterns cfg then None
              else if length normalizedForm < 2 then None
              else Some \<lparr>pn_form = form, pn_normalized = normalizedForm,
                         pn_isPossessive = includesStr form possessiveSuffix,
                         pn_hasTitle = isTitle, pn_titleType = tType,
                         pn_isAtSentenceStart = False,
                         wordCount = length components, endIndex = endIdx\<rparr>)"

text \<open>The \<^verbatim>\<open>while\<close> loop of \<open>extractFromLine\<close> over the word index.\<close>

function extractLoop :: "config \<Rightarrow> string list \<Rightarrow> nat set \<Rightarrow> nat \<Rightarrow> proper_noun list" where
  "extractLoop cfg ws sentenceStartIndices i =
     (if i < length ws
      then
        if isContraction (ws ! i) then extractLoop cfg ws sentenceStartIndices (Suc i)
        else if cleanToken (ws ! i) = [] \<or> isStopword cfg (cleanToken (ws ! i))
        then extractLoop cfg ws sentenceStartIndices (Suc i)
        else if isCapitalized (cleanToken (ws ! i))
        then (case extractProperNounSequence cfg ws i of
                None \<Rightarrow> extractLoop cfg ws sentenceStartIndices (Suc i)
              | Some r \<Rightarrow>
                  r\<lparr>pn_isAtSentenceStart := i \<in> sentenceStartIndices\<rparr> #
                  extractLoop cfg ws sentenceStartIndices (Suc (endIndex r)))
        else extractLoop cfg ws sentenceStartIndices (Suc i)
      else [])"
  by pat_completeness auto
termination
proof (relation "measure (\<lambda>(cfg, ws, starts, i). length ws - i)")
  show "wf (measure (\<lambda>(cfg, ws, starts, i). length ws - i))" by simp
next
  fix cfg :: config and ws :: "string list" and sentenceStartIndices :: "nat set" and i :: nat
    and r :: proper_noun
  assume i: "i < length ws" and r: "extractProperNounSequence cfg ws i = Some r"
  have collect: "startIndex \<le> e \<Longrightarrow> startIndex \<le> j \<Longrightarrow>
                 startIndex \<le> snd (collectWords cfg ws startIndex j cs e)"
    for startIndex j cs e
  proof (induction cfg ws startIndex j cs e rule: collectWords.induct)
    case (1 cfg ws startIndex i components endIdx)
    show ?case
      using "1.prems" "1.IH" by (subst collectWords.simps) (auto simp: Let_def)
  qed
  have "i \<le> endIndex r"
    using r collect [of i i i "[]"]
    by (auto simp: extractProperNounSequence_def Let_def split: if_splits prod.splits)
  then show "((cfg, ws, sentenceStartIndices, Suc (endIndex r)), (cfg, ws, sentenceStartIndices, i))
               \<in> measure (\<lambda>(cfg, ws, starts, i). length ws - i)"
    using i by simp
qed auto

text \<open>The words of a line, and the indices at which a sentence starts: index 0 and every
  index after a word that ends a sentence.\<close>

definition extractFromLine :: "config \<Rightarrow> string \<Rightarrow> proper_noun list" where
  "extractFromLine cfg line =
     (let ws = filter (\<lambda>w. length w > 0) (splitWhitespace line);
          sentenceStartIndices =
            insert 0 (set (map (\<lambda>j. j + 1)
                             (filter (\<lambda>j. endsSentence (ws ! j)) [0 ..< length ws - 1])))
      in extractLoop cfg ws sentenceStartIndices 0)"

text \<open>\<^verbatim>\<open>/^##\s+CHAPTER\s+(\w+):\s*(.*)$/i\<close>, where \<^verbatim>\<open>.\<close> is any character but a line
  terminator.\<close>

definition chapterHeaderRe :: regex where
  "chapterHeaderRe =
     seqs [Bos, Lit ''##'', Plus is_space, Lit ''CHAPTER'', Plus is_space, Plus is_word,
           Lit '':'', Star is_space, Star (\<lambda>c. c \<noteq> CHR 0x0A \<and> c \<noteq> CHR 0x0D), Eos]"

text \<open>\<^verbatim>\<open>text.split('\n')\<close>.\<close>

fun splitLines :: "string \<Rightarrow> string list" where
  "splitLines [] = [[]]"
| "splitLines (c # cs) =
     (if c = NL then [] # splitLines cs
      else (case splitLines cs of [] \<Rightarrow> [[c]] | l # ls \<Rightarrow> (c # l) # ls))"

text \<open>The state of the loop over the lines. The chapter title is only logged and is left
  out.\<close>

record extract_state =
  inFrontmatter :: bool
  currentChapter :: nat
  paragraphIdx :: nat
  st_mentions :: "mention list"
  st_mentionCounts :: "(string \<times> nat) list"
  st_possessiveCounts :: "(string \<times> nat) list"
  st_sentenceStartCounts :: "(string \<times> nat) list"
  st_firstAppearances :: "(string \<times> first_appearance) list"

definition bumpCount :: "string \<Rightarrow> (string \<times> nat) list \<Rightarrow> (string \<times> nat) list" where
  "bumpCount key counts = map_set key (countOf counts key + 1) counts"

definition recordMention :: "nat \<Rightarrow> proper_noun \<Rightarrow> extract_state \<Rightarrow> extract_state" where
  "recordMention lineIndex pn st =
     st\<lparr>st_mentions := st_mentions st @
           [\<lparr>m_form = pn_form pn, normalized = pn_normalized pn,
             isPossessive = pn_isPossessive pn, m_hasTitle = pn_hasTitle pn,
             m_titleType = pn_titleType pn, isAtSentenceStart = pn_isAtSentenceStart pn,
             m_chapter = currentChapter st, m_paragraph = paragraphIdx st,
             m_line = lineIndex + 1\<rparr>],
        st_mentionCounts := bumpCount (pn_normalized pn) (st_mentionCounts st),
        st_possessiveCounts :=
          (if pn_isPossessive pn then bumpCount (pn_normalized pn) (st_possessiveCounts st)
           else st_possessiveCounts st),
        st_sentenceStartCounts :=
          (if pn_isAtSentenceStart pn then bumpCount (pn_normalized pn) (st_sentenceStartCounts st)
           else st_sentenceStartCounts st),
        st_firstAppearances :=
          (case map_get (st_firstAppearances st) (pn_normalized pn) of
             None \<Rightarrow> map_set (pn_normalized pn)
                       \<lparr>fa_chapter = currentChapter st, fa_paragraph = paragraphIdx st,
                        fa_form = Some (pn_form pn)\<rparr> (st_firstAppearances st)
           | Some fa \<Rightarrow> st_firstAppearances st)\<rparr>"

definition processLine :: "config \<Rightarrow> nat \<times> string \<Rightarrow> extract_state \<Rightarrow> extract_state" where
  "processLine cfg il st =
     (let lineIndex = fst il; line = snd il
      in if trim line = ''---'' then st\<lparr>inFrontmatter := \<not> inFrontmatter st\<rparr>
         else if inFrontmatter st then st
         else if testRe True chapterHeaderRe line
         then st\<lparr>currentChapter := currentChapter st + 1, paragraphIdx := 0\<rparr>
         else if trim line = [] then st\<lparr>paragraphIdx := paragraphIdx st + 1\<rparr>
         else fold (recordMention lineIndex) (extractFromLine cfg line) st)"

definition extractProperNouns :: "config \<Rightarrow> string \<Rightarrow> extraction_result" where
  "extractProperNouns cfg t =
     (let st = fold (processLine cfg) (enumerate 0 (splitLines t))
                 \<lparr>inFrontmatter = False, currentChapter = 0, paragraphIdx = 0,
                  st_mentions = [], st_mentionCounts = [], st_possessiveCounts = [],
                  st_sentenceStartCounts = [], st_firstAppearances = []\<rparr>
      in \<lparr>er_mentions = st_mentions st,
          mentionCounts = st_mentionCounts st,
          possessiveCounts = st_possessiveCounts st,
          sentenceStartCounts = st_sentenceStartCounts st,
          firstAppearances = st_firstAppearances st,
          metadata = \<lparr>md_totalMentions = length (st_mentions st),
                       uniqueForms = length (st_mentionCounts st),
                       chaptersProcessed = currentChapter st\<rparr>\<rparr>)"

text \<open>A configuration for the examples: a few stop words and titles.\<close>

definition sampleConfig :: config where
  "sampleConfig =
     \<lparr>stopwordSet = {''the'', ''he'', ''she'', ''it'', ''then'', ''and''},
      chapterPatterns = {''chapter''},
      titlePatterns = [(''Mr'', Some ''honorific''), (''Mrs'', Some ''honorific''),
                       (''Professor'', Some ''academic'')]\<rparr>"

subsection \<open>groupVariants (group-variants.js)\<close>

record titled_name =
  tn_form :: string
  tn_title :: string
  tn_name :: string
  tn_count :: nat
  tn_titleType :: "string option"

text \<open>The three \<^verbatim>\<open>Map\<close>s of \<open>categorizeFormsFromMentions\<close> turned into arrays, and the map
  of the possessive forms.\<close>

record forms =
  fullNames :: "(string \<times> nat) list"
  titledNames :: "titled_name list"
  singleNames :: "(string \<times> nat) list"
  possessives :: "(string \<times> string) list"

record categorize_state =
  cs_fullNames :: "(string \<times> nat) list"
  cs_titledNames :: "(string \<times> titled_name) list"
  cs_singleNames :: "(string \<times> nat) list"
  cs_possessives :: "(string \<times> string) list"

text \<open>\<^verbatim>\<open>counts[key] || fallback\<close>: a missing or zero count gives the fallback.\<close>

definition countOr :: "(string \<times> nat) list \<Rightarrow> string \<Rightarrow> nat \<Rightarrow> nat" where
  "countOr counts key fallback =
     (case map_get counts key of None \<Rightarrow> fallback | Some n \<Rightarrow> if n = 0 then fallback else n)"

definition categorizeMention ::
  "(string \<times> nat) list \<Rightarrow> mention \<Rightarrow> categorize_state \<Rightarrow> categorize_state" where
  "categorizeMention mCounts m st =
     (let fm = normalized m;
          ws = splitWhitespace fm
      in if m_hasTitle m \<and> length ws \<ge> 2
         then
           let entry = (case map_get (cs_titledNames st) fm of
                          None \<Rightarrow> \<lparr>tn_form = fm, tn_title = ws ! 0, tn_name = join '' '' (tl ws),
                                    tn_count = 0, tn_titleType = m_titleType m\<rparr>
                        | Some e \<Rightarrow> e)
           in st\<lparr>cs_titledNames :=
                   map_set fm (entry\<lparr>tn_count := tn_count entry + 1\<rparr>) (cs_titledNames st)\<rparr>
         else if length ws \<ge> 2
         then st\<lparr>cs_fullNames := map_set fm (countOf (cs_fullNames st) fm + 1) (cs_fullNames st)\<rparr>
         else if length ws = 1
         then
           let base = stripPossessive fm;
               st1 = (if isPossessive m
                      then st\<lparr>cs_possessives := map_set fm base (cs_possessives st)\<rparr> else st)
           in st1\<lparr>cs_singleNames :=
                    map_set base (countOf (cs_singleNames st1) base + countOr mCounts fm 1)
                      (cs_singleNames st1)\<rparr>
         else st)"

definition categorizeFormsFromMentions :: "mention list \<Rightarrow> (string \<times> nat) list \<Rightarrow> forms" where
  "categorizeFormsFromMentions ms mCounts =
     (let st = fold (categorizeMention mCounts) ms
                 \<lparr>cs_fullNames = [], cs_titledNames = [], cs_singleNames = [],
                  cs_possessives = []\<rparr>
      in \<lparr>fullNames = cs_fullNames st,
          titledNames = map snd (cs_titledNames st),
          singleNames = cs_singleNames st,
          possessives = cs_possessives st\<rparr>)"

text \<open>A group under construction, and the state of \<open>buildEntityGroups\<close>: the groups
  pushed so far and the set \<open>assignedForms\<close>.\<close>

record draft_group =
  d_canonicalName :: string
  d_variants :: "group_variant list"
  d_evidence :: evidence

record build_state =
  bs_groups :: "draft_group list"
  assignedForms :: "string set"

definition mkVariant :: "string \<Rightarrow> nat \<Rightarrow> bool \<Rightarrow> string option \<Rightarrow> group_variant" where
  "mkVariant f n t ty = \<lparr>form = f, count = n, hasTitle = t, titleType = ty\<rparr>"

text \<open>The possessive of a form that was just attached: pushed when the counts have it,
  without a look at \<open>assignedForms\<close>.\<close>

definition attachPossessive ::
  "(string \<times> nat) list \<Rightarrow> string \<Rightarrow> draft_group \<times> string set \<Rightarrow> draft_group \<times> string set" where
  "attachPossessive mCounts base ga =
     (let possessiveForm = base @ possessiveSuffix
      in if countOf mCounts possessiveForm \<noteq> 0
         then ((fst ga)\<lparr>d_variants := d_variants (fst ga) @
                          [mkVariant possessiveForm (countOf mCounts possessiveForm) False None]\<rparr>,
               insert possessiveForm (snd ga))
         else ga)"

definition attachPart ::
  "forms \<Rightarrow> (string \<times> nat) list \<Rightarrow> string \<Rightarrow> draft_group \<times> string set \<Rightarrow>
   draft_group \<times> string set" where
  "attachPart fs mCounts part ga =
     (if part \<in> snd ga then ga
      else
        case find (\<lambda>s. fst s = part) (singleNames fs) of
          None \<Rightarrow> ga
        | Some singleMatch \<Rightarrow>
            if snd singleMatch \<ge> 3
            then attachPossessive mCounts part
                   ((fst ga)\<lparr>d_variants := d_variants (fst ga) @
                       [mkVariant part (countOr mCounts part (snd singleMatch)) False None]\<rparr>,
                    insert part (snd ga))
            else ga)"

definition addTitlePattern :: "string \<Rightarrow> evidence \<Rightarrow> evidence" where
  "addTitlePattern t ev =
     (case ev of
        FullNameEvidence ps tps \<Rightarrow> FullNameEvidence ps (Some (or_empty tps @ [t]))
      | _ \<Rightarrow> ev)"

definition attachTitled ::
  "(string \<times> nat) list \<Rightarrow> string list \<Rightarrow> titled_name \<Rightarrow> draft_group \<times> string set \<Rightarrow>
   draft_group \<times> string set" where
  "attachTitled mCounts ps titled ga =
     (if tn_form titled \<in> snd ga then ga
      else
        let titledParts = splitWhitespace (tn_name titled);
            lastTitledPart = last titledParts
        in if lastTitledPart \<in> set ps
           then ((fst ga)\<lparr>d_variants := d_variants (fst ga) @
                            [mkVariant (tn_form titled)
                               (countOr mCounts (tn_form titled) (tn_count titled)) True
                               (tn_titleType titled)],
                          d_evidence := addTitlePattern (tn_title titled) (d_evidence (fst ga))\<rparr>,
                 insert (tn_form titled) (snd ga))
           else ga)"

definition partCount :: "forms \<Rightarrow> (string \<times> nat) list \<Rightarrow> string \<Rightarrow> nat" where
  "partCount fs mCounts part =
     (case find (\<lambda>s. fst s = part) (singleNames fs) of
        None \<Rightarrow> 0 | Some m \<Rightarrow> countOr mCounts part (snd m))"

text \<open>Priority 1: full names as anchors.\<close>

definition fullNameStep ::
  "forms \<Rightarrow> (string \<times> nat) list \<Rightarrow> string \<times> nat \<Rightarrow> build_state \<Rightarrow> build_state" where
  "fullNameStep fs mCounts fullName st =
     (if fst fullName \<in> assignedForms st then st
      else
        let n = countOr mCounts (fst fullName) (snd fullName) in
        if n < 3 then st
        else
          let ps = splitWhitespace (fst fullName) in
          if length ps > 2 then st
          else if length ps = 2 \<and> partCount fs mCounts (ps ! 0) > n * 10 \<and>
                  partCount fs mCounts (ps ! 1) > n * 10
          then st
          else
            let g0 = \<lparr>d_canonicalName = fst fullName,
                      d_variants = [mkVariant (fst fullName) n False None],
                      d_evidence = FullNameEvidence ps None\<rparr>;
                ga1 = fold (attachPart fs mCounts) ps (g0, insert (fst fullName) (assignedForms st));
                ga2 = fold (attachTitled mCounts ps) (titledNames fs) ga1
            in \<lparr>bs_groups = bs_groups st @ [fst ga2], assignedForms = snd ga2\<rparr>)"

text \<open>Priority 2: the titled names that are left.\<close>

definition titledStep ::
  "forms \<Rightarrow> (string \<times> nat) list \<Rightarrow> titled_name \<Rightarrow> build_state \<Rightarrow> build_state" where
  "titledStep fs mCounts titled st =
     (if tn_form titled \<in> assignedForms st then st
      else
        let g0 = \<lparr>d_canonicalName = tn_form titled,
                  d_variants = [mkVariant (tn_form titled)
                                  (countOr mCounts (tn_form titled) (tn_count titled)) True None],
                  d_evidence = TitledNameEvidence (tn_title titled) (tn_titleType titled)\<rparr>;
            assigned0 = insert (tn_form titled) (assignedForms st);
            namePart = tn_name titled;
            ga = (if namePart \<notin> assigned0
                  then (case find (\<lambda>s. fst s = namePart) (singleNames fs) of
                          None \<Rightarrow> (g0, assigned0)
                        | Some singleMatch \<Rightarrow>
                            attachPossessive mCounts namePart
                              (g0\<lparr>d_variants := d_variants g0 @
                                    [mkVariant namePart (countOr mCounts namePart (snd singleMatch))
                                       False None],
                                  d_canonicalName := namePart\<rparr>,
                               insert namePart assigned0))
                  else (g0, assigned0))
        in \<lparr>bs_groups = bs_groups st @ [fst ga], assignedForms = snd ga\<rparr>)"

text \<open>Priority 3: the single names that are left.\<close>

definition singleStep ::
  "(string \<times> nat) list \<Rightarrow> string \<times> nat \<Rightarrow> build_state \<Rightarrow> build_state" where
  "singleStep mCounts single st =
     (if fst single \<in> assignedForms st then st
      else if snd single < 3 then st
      else
        let g0 = \<lparr>d_canonicalName = fst single,
                  d_variants = [mkVariant (fst single) (countOr mCounts (fst single) (snd single))
                                  False None],
                  d_evidence = SingleNameEvidence False\<rparr>;
            ga = attachPossessive mCounts (fst single) (g0, insert (fst single) (assignedForms st));
            g1 = (if countOf mCounts (fst single @ possessiveSuffix) \<noteq> 0
                  then (fst ga)\<lparr>d_evidence := SingleNameEvidence True\<rparr> else fst ga)
        in \<lparr>bs_groups = bs_groups st @ [g1], assignedForms = snd ga\<rparr>)"

text \<open>The earliest first appearance among the variants, by chapter, then paragraph.\<close>

definition earlier :: "first_appearance \<Rightarrow> first_appearance \<Rightarrow> bool" where
  "earlier a b \<longleftrightarrow>
     fa_chapter a < fa_chapter b \<or> (fa_chapter a = fa_chapter b \<and> fa_paragraph a < fa_paragraph b)"

definition earliestAppearance ::
  "(string \<times> first_appearance) list \<Rightarrow> group_variant list \<Rightarrow> first_appearance option" where
  "earliestAppearance fas vs =
     fold (\<lambda>v earliest.
             case map_get fas (form v) of
               None \<Rightarrow> earliest
             | Some appearance \<Rightarrow>
                 (case earliest of
                    None \<Rightarrow> Some appearance
                  | Some e \<Rightarrow> if earlier appearance e then Some appearance else earliest))
       vs None"

definition finishGroup :: "(string \<times> first_appearance) list \<Rightarrow> draft_group \<Rightarrow> entity_group" where
  "finishGroup fas g =
     \<lparr>g_canonicalName = d_canonicalName g,
      g_variants = d_variants g,
      g_evidence = d_evidence g,
      g_firstAppearance =
        (case earliestAppearance fas (d_variants g) of
           None \<Rightarrow> \<lparr>fa_chapter = 0, fa_paragraph = 0, fa_form = None\<rparr>
         | Some e \<Rightarrow> e),
      totalMentions = fold (\<lambda>v s. s + count v) (d_variants g) 0,
      g_sentenceStartRatio = None\<rparr>"

definition buildEntityGroups ::
  "forms \<Rightarrow> (string \<times> nat) list \<Rightarrow> (string \<times> first_appearance) list \<Rightarrow> entity_group list" where
  "buildEntityGroups fs mCounts fas =
     (let st1 = fold (fullNameStep fs mCounts) (fullNames fs)
                  \<lparr>bs_groups = [], assignedForms = {}\<rparr>;
          st2 = fold (titledStep fs mCounts) (titledNames fs) st1;
          st3 = fold (singleStep mCounts) (singleNames fs) st2
      in sort_desc totalMentions (map (finishGroup fas) (bs_groups st3)))"

definition groupVariants :: "extraction_result \<Rightarrow> nat \<Rightarrow> entity_group list" where
  "groupVariants extractionResult minMentions =
     (let fs = categorizeFormsFromMentions (er_mentions extractionResult)
                 (mentionCounts extractionResult);
          entityGroups = buildEntityGroups fs (mentionCounts extractionResult)
                           (firstAppearances extractionResult)
      in filter (\<lambda>g. fold (\<lambda>v s. s + count v) (g_variants g) 0 \<ge> minMentions) entityGroups)"

text \<open>A text in which a doubled possessive occurs as often as a tripled one.\<close>

definition doubledPossessiveText :: string where
  "doubledPossessiveText =
     join '' '' (replicate 3 (''Ron'' @ possessiveSuffix @ possessiveSuffix @ possessiveSuffix @ '' hat'') @
                 replicate 3 (''Ron'' @ possessiveSuffix @ possessiveSuffix @ '' hat''))"

subsection \<open>Predicates used in the statements about the merge\<close>


text \<open>The entities a merge group resolves to (\<open>groupEntities\<close> in the source), and
  whether the group is merged rather than skipped.\<close>

definition resolved :: "merge_state \<Rightarrow> json \<Rightarrow> entity list" where
  "resolved st g =
     (case g of JArr names \<Rightarrow> List.map_filter (entity_get (entityMap st)) names | _ \<Rightarrow> [])"

definition mergeable :: "merge_state \<Rightarrow> json \<Rightarrow> bool" where
  "mergeable st g \<longleftrightarrow> 2 \<le> length (resolved st g)"

text \<open>The state of the loop of \<open>applyMerges\<close> over the merge groups when the groups
  \<open>mgs\<close> have been dealt with: its map holds the entities that are live for the group
  that comes next.\<close>

definition mergeLoop :: "entity list \<Rightarrow> json list \<Rightarrow> merge_state" where
  "mergeLoop es mgs =
     fold applyGroup mgs \<lparr>entityMap = buildEntityMap es, applied = [], skipped = []\<rparr>"

text \<open>The sum of an entity's variant counts, whether its canonical name is the form of
  one of its variants, and both conditions of a well-formed entity together.\<close>

definition variantTotal :: "entity \<Rightarrow> nat" where
  "variantTotal e = sum_list (map count (or_empty (variants e)))"

definition namedByVariant :: "entity \<Rightarrow> bool" where
  "namedByVariant e \<longleftrightarrow> canonicalName e \<in> form ` set (or_empty (variants e))"

definition consistent :: "entity \<Rightarrow> bool" where
  "consistent e \<longleftrightarrow> mentions e = variantTotal e \<and> namedByVariant e"

text \<open>An entity with a single variant, its own name, as \<open>tierEntities\<close> builds it from a
  group of one form.\<close>

definition singleVariantEntity :: "string \<Rightarrow> string \<Rightarrow> nat \<Rightarrow> nat \<Rightarrow> nat \<Rightarrow> entity" where
  "singleVariantEntity i name n ch par =
     \<lparr>entity_id = i, canonicalName = name, mentions = n,
      variants = Some [\<lparr>form = name, count = n\<rparr>],
      qualifiedBy = Some ''title_pattern'', sentenceStartRatio = None, entity_notes = None,
      mergedFrom = None,
      firstAppearance = Some \<lparr>fa_chapter = ch, fa_paragraph = par, fa_form = Some name\<rparr>\<rparr>"

subsection \<open>Predicates used in the statements about the extraction\<close>

text \<open>The tallies of the loop state agree with its list of mentions.\<close>

definition tallied :: "extract_state \<Rightarrow> bool" where
  "tallied st \<longleftrightarrow>
     sum_list (map snd (st_mentionCounts st)) = length (st_mentions st) \<and>
     fst ` set (st_possessiveCounts st) \<subseteq> fst ` set (st_mentionCounts st) \<and>
     fst ` set (st_sentenceStartCounts st) \<subseteq> fst ` set (st_mentionCounts st) \<and>
     fst ` set (st_firstAppearances st) \<subseteq> fst ` set (st_mentionCounts st)"

subsection \<open>Predicates and fixtures used in the statements about the mention totals\<close>

text \<open>A group under construction is named by the form of one of its variants.\<close>

definition draftNamed :: "draft_group \<Rightarrow> bool" where
  "draftNamed d \<longleftrightarrow> d_canonicalName d \<in> form ` set (d_variants d)"

text \<open>A group has as total the sum of its variants' counts and is named by the form of
  one of its variants.\<close>

definition groupConsistent :: "entity_group \<Rightarrow> bool" where
  "groupConsistent g \<longleftrightarrow>
     totalMentions g = sum_list (map count (g_variants g)) \<and>
     g_canonicalName g \<in> form ` set (g_variants g)"

text \<open>A line of text with \<open>Harry Potter\<close>, \<open>Harry\<close>, \<open>Ron\<close> and \<open>Ronald\<close> three times each, none
  at the start of a sentence, and tier options that keep groups of three mentions.\<close>

definition harryRonText :: string where
  "harryRonText =
     join '' '' (replicate 3 ''said Harry Potter to Ron and'' @
                 replicate 3 ''said Harry to Ronald and'')"

definition keepAllOptions :: tier_options where
  "keepAllOptions = defaultTierOptions\<lparr>minCandidateMentions := 3\<rparr>"

text \<open>The entities of that text, as the pipeline of \<^verbatim>\<open>discover.js\<close> builds them: extraction,
  grouping from three mentions on, junk filter, tiers.\<close>

definition harryRonEntities :: "entity list" where
  "harryRonEntities =
     (let er = extractProperNouns sampleConfig harryRonText;
          tiers = tierEntities (titlePrefixesOf sampleConfig)
                    (clean (filterJunk (groupVariants er 3) er harryRonText)) er keepAllOptions
      in tier_confirmedCharacters tiers @ tier_candidates tiers)"

section \<open>Properties\<close>

subsection \<open>The lookup map\<close>

lemma map_get_in_set: "map_get m k = Some v \<Longrightarrow> (k, v) \<in> set m"
  by (induction m) (auto split: if_splits)

lemma map_set_keys:
  "fst ` set (map_set k v m) = insert k (fst ` set m)"
  by (induction k v m rule: map_set.induct) auto

lemma map_set_values: "snd ` set (map_set k v m) \<subseteq> insert v (snd ` set m)"
  by (induction k v m rule: map_set.induct) auto


lemma map_set_distinct: "distinct (map fst m) \<Longrightarrow> distinct (map fst (map_set k v m))"
proof (induction m)
  case Nil
  then show ?case by simp
next
  case (Cons a m)
  obtain k' v' where a: "a = (k', v')" by (cases a)
  have "k' \<noteq> k \<Longrightarrow> k' \<notin> fst ` set (map_set k v m)"
    using Cons.prems a by (auto simp: map_set_keys)
  with Cons a show ?case by auto
qed

lemma map_delete_filter: "map_delete k m = filter (\<lambda>p. fst p \<noteq> k) m"
  by (induction m) auto

lemma map_delete_subset: "set (map_delete k m) \<subseteq> set m"
  by (auto simp: map_delete_filter)

lemma fold_map_delete_filter:
  "fold (\<lambda>other m. map_delete (f other) m) os m = filter (\<lambda>p. fst p \<notin> f ` set os) m"
proof (induction os arbitrary: m)
  case Nil
  then show ?case by simp
next
  case (Cons a os)
  have "filter (\<lambda>p. fst p \<notin> f ` set os) (filter (\<lambda>p. fst p \<noteq> f a) m)
      = filter (\<lambda>p. fst p \<notin> f ` set (a # os)) m"
    by (induction m) auto
  with Cons show ?case by (simp add: map_delete_filter)
qed




lemma fold_map_set_values:
  "snd ` set (fold (\<lambda>e m. map_set (canonicalName e) e m) es m) \<subseteq> set es \<union> snd ` set m"
proof (induction es arbitrary: m)
  case Nil
  then show ?case by simp
next
  case (Cons a es)
  show ?case
    using Cons.IH [of "map_set (canonicalName a) a m"] map_set_values [of "canonicalName a" a m]
    by auto
qed

lemma buildEntityMap_values: "snd ` set (buildEntityMap es) \<subseteq> set es"
  unfolding buildEntityMap_def using fold_map_set_values [of es "[]"] by simp

lemma entity_get_in_set: "entity_get m j = Some e \<Longrightarrow> \<exists>k. j = JStr k \<and> (k, e) \<in> set m"
  by (auto simp: entity_get_def dest: map_get_in_set split: json.splits)

lemma map_filter_entity_get_set:
  "set (List.map_filter (entity_get m) names) \<subseteq> snd ` set m"
  by (force simp: List.map_filter_def dest: entity_get_in_set)

lemma set_sort_desc [simp]: "set (sort_desc key xs) = set xs"
  by (simp add: sort_desc_def)

lemma length_sort_desc [simp]: "length (sort_desc key xs) = length xs"
  by (simp add: sort_desc_def)

lemma hd_tl_sort_desc:
  assumes "2 \<le> length xs"
  shows "hd (sort_desc key xs) \<in> set xs" and "set (tl (sort_desc key xs)) \<subseteq> set xs"
proof -
  have ne: "sort_desc key xs \<noteq> []" using assms by (auto simp flip: length_0_conv)
  then have "hd (sort_desc key xs) \<in> set (sort_desc key xs)" by (rule hd_in_set)
  then show "hd (sort_desc key xs) \<in> set xs" by simp
  have "set (tl (sort_desc key xs)) \<subseteq> set (sort_desc key xs)"
    using ne by (auto dest: list.set_sel(2))
  then show "set (tl (sort_desc key xs)) \<subseteq> set xs" by simp
qed

subsection \<open>Fields the merge loops keep or accumulate\<close>

lemma absorb_canonicalName [simp]: "canonicalName (absorb p other) = canonicalName p"
  by (simp add: absorb_def Let_def)

lemma absorb_mentions [simp]: "mentions (absorb p other) = mentions p + mentions other"
  by (simp add: absorb_def Let_def)

lemma absorb_mergedFrom [simp]:
  "mergedFrom (absorb p other) = Some (or_empty (mergedFrom p) @ [canonicalName other])"
  by (simp add: absorb_def Let_def)

lemma absorb_firstAppearance [simp]: "firstAppearance (absorb p other) = firstAppearance p"
  by (simp add: absorb_def Let_def)

lemma mergeOthers_canonicalName [simp]: "canonicalName (mergeOthers p os) = canonicalName p"
  by (induction os arbitrary: p) auto

lemma mergeOthers_firstAppearance [simp]:
  "firstAppearance (mergeOthers p os) = firstAppearance p"
  by (induction os arbitrary: p) auto

lemma adoptFirst_fields [simp]:
  "canonicalName (adoptFirst p other) = canonicalName p"
  "mentions (adoptFirst p other) = mentions p"
  "variants (adoptFirst p other) = variants p"
  "mergedFrom (adoptFirst p other) = mergedFrom p"
  by (auto simp: adoptFirst_def split: option.splits)

lemma updateFirstAppearance_fields [simp]:
  "canonicalName (updateFirstAppearance p os) = canonicalName p"
  "mentions (updateFirstAppearance p os) = mentions p"
  "variants (updateFirstAppearance p os) = variants p"
  "mergedFrom (updateFirstAppearance p os) = mergedFrom p"
  by (induction os arbitrary: p) auto


subsection \<open>The invariant of the merge\<close>

lemma absorb_consistent:
  assumes "consistent p" and "consistent other"
  shows "consistent (absorb p other)"
proof -
  obtain ovs where ovs: "variants other = Some ovs"
    using assms(2) by (cases "variants other") (auto simp: consistent_def namedByVariant_def or_empty_def)
  have has: "list_ex (\<lambda>v. form v = canonicalName other) (or_empty (variants p) @ ovs)"
    using assms(2) ovs by (auto simp: consistent_def namedByVariant_def or_empty_def list_ex_iff)
  have v: "variants (absorb p other) = Some (or_empty (variants p) @ ovs)"
    using has ovs by (simp add: absorb_def Let_def or_empty_def)
  show ?thesis
    using assms ovs
    by (auto simp: consistent_def namedByVariant_def variantTotal_def v or_empty_def)
qed

lemma mergeOthers_consistent:
  "consistent p \<Longrightarrow> \<forall>other \<in> set os. consistent other \<Longrightarrow> consistent (mergeOthers p os)"
proof (induction os arbitrary: p)
  case Nil
  then show ?case by simp
next
  case (Cons a os)
  have "consistent (deref p a)" using Cons.prems by (simp add: deref_def)
  then have "consistent (absorb p (deref p a))" using Cons.prems(1) by (simp add: absorb_consistent)
  then show ?case using Cons by simp
qed

lemma updateFirstAppearance_consistent:
  "consistent (updateFirstAppearance p os) = consistent p"
  by (simp add: consistent_def variantTotal_def namedByVariant_def)

lemma length_map_filter_le: "length (List.map_filter f xs) \<le> length xs"
  by (simp add: List.map_filter_def)

lemma applyGroup_skip:
  assumes "\<not> mergeable st g"
  shows "entityMap (applyGroup g st) = entityMap st" and "applied (applyGroup g st) = applied st"
  using assms by (cases g; simp add: applyGroup_def mergeable_def resolved_def Let_def)+

lemma applyGroup_merge:
  assumes "mergeable st g"
  defines "srt \<equiv> sort_desc mentions (resolved st g)"
  defines "p2 \<equiv> updateFirstAppearance (mergeOthers (hd srt) (tl srt)) (tl srt)"
  shows "entityMap (applyGroup g st) =
           filter (\<lambda>p. fst p \<notin> canonicalName ` set (tl srt))
             (map (\<lambda>(k, e). if k = canonicalName (hd srt) then (k, p2) else (k, e))
                (entityMap st))"
    and "applied (applyGroup g st) =
           applied st @ [\<lparr>primary = canonicalName (hd srt),
                           merged = map canonicalName (tl srt),
                           newMentionCount = mentions p2\<rparr>]"
proof -
  obtain names where g: "g = JArr names"
    using assms(1) by (cases g) (auto simp: mergeable_def resolved_def)
  have r: "resolved st (JArr names) = List.map_filter (entity_get (entityMap st)) names"
    by (simp add: resolved_def)
  have len: "\<not> length (List.map_filter (entity_get (entityMap st)) names) < 2"
    using assms(1) by (simp add: mergeable_def g r)
  have len': "\<not> length names < 2"
    using len length_map_filter_le [of "entity_get (entityMap st)" names] by linarith
  show "entityMap (applyGroup g st) =
           filter (\<lambda>p. fst p \<notin> canonicalName ` set (tl srt))
             (map (\<lambda>(k, e). if k = canonicalName (hd srt) then (k, p2) else (k, e))
                (entityMap st))"
    unfolding p2_def srt_def g r using len len'
    by (simp add: applyGroup_def Let_def fold_map_delete_filter)
  show "applied (applyGroup g st) =
           applied st @ [\<lparr>primary = canonicalName (hd srt),
                           merged = map canonicalName (tl srt),
                           newMentionCount = mentions p2\<rparr>]"
    unfolding p2_def srt_def g r using len len'
    by (simp add: applyGroup_def Let_def)
qed

lemma resolved_subset: "set (resolved st g) \<subseteq> snd ` set (entityMap st)"
  by (cases g) (auto simp: resolved_def dest: subsetD [OF map_filter_entity_get_set])

lemma replaced_values:
  "(k, e) \<in> set (filter P (map (\<lambda>(k, e). if k = n then (k, q) else (k, e)) m)) \<Longrightarrow>
   e = q \<or> e \<in> snd ` set m"
proof (induction m)
  case Nil
  then show ?case by simp
next
  case (Cons a m)
  obtain k' e' where a: "a = (k', e')" by (cases a)
  show ?case
  proof (cases "(k, e) \<in> set (filter P (map (\<lambda>(k, e). if k = n then (k, q) else (k, e)) m))")
    case True
    then show ?thesis using Cons.IH by auto
  next
    case False
    then have "(k, e) = (if k' = n then (k', q) else (k', e'))"
      using Cons.prems a by (auto split: if_splits)
    then show ?thesis using a by (auto split: if_splits)
  qed
qed

lemma applyGroup_consistent:
  assumes "\<forall>e \<in> snd ` set (entityMap st). consistent e"
  shows "\<forall>e \<in> snd ` set (entityMap (applyGroup g st)). consistent e"
proof (cases "mergeable st g")
  case False
  then show ?thesis using assms by (simp add: applyGroup_skip)
next
  case True
  then have len: "2 \<le> length (resolved st g)" by (simp add: mergeable_def)
  define srt where "srt = sort_desc mentions (resolved st g)"
  define p2 where "p2 = updateFirstAppearance (mergeOthers (hd srt) (tl srt)) (tl srt)"
  have sub: "set (resolved st g) \<subseteq> snd ` set (entityMap st)" by (rule resolved_subset)
  have "hd srt \<in> set (resolved st g)"
    unfolding srt_def by (rule hd_tl_sort_desc(1) [OF len])
  then have h: "consistent (hd srt)" using sub assms by blast
  have "set (tl srt) \<subseteq> set (resolved st g)"
    unfolding srt_def by (rule hd_tl_sort_desc(2) [OF len])
  then have t: "\<forall>other \<in> set (tl srt). consistent other" using sub assms by blast
  have p2: "consistent p2"
    unfolding p2_def updateFirstAppearance_consistent by (rule mergeOthers_consistent [OF h t])
  have m: "entityMap (applyGroup g st) =
             filter (\<lambda>p. fst p \<notin> canonicalName ` set (tl srt))
               (map (\<lambda>(k, e). if k = canonicalName (hd srt) then (k, p2) else (k, e))
                  (entityMap st))"
    unfolding srt_def p2_def by (rule applyGroup_merge(1) [OF True])
  show ?thesis
  proof
    fix e
    assume "e \<in> snd ` set (entityMap (applyGroup g st))"
    then obtain k where "(k, e) \<in> set (entityMap (applyGroup g st))" by force
    then have "e = p2 \<or> e \<in> snd ` set (entityMap st)"
      unfolding m by (rule replaced_values)
    then show "consistent e" using p2 assms by blast
  qed
qed

lemma fold_applyGroup_consistent:
  "\<forall>e \<in> snd ` set (entityMap st). consistent e \<Longrightarrow>
   \<forall>e \<in> snd ` set (entityMap (fold applyGroup mgs st)). consistent e"
proof (induction mgs arbitrary: st)
  case Nil
  then show ?case by simp
next
  case (Cons g mgs)
  show ?case using Cons.IH [OF applyGroup_consistent [OF Cons.prems]] by simp
qed

lemma applyMerges_consistent:
  assumes "\<forall>e \<in> set es. consistent e"
  shows "\<forall>e \<in> set (entities (applyMerges es mgs)). consistent e"
proof -
  let ?st0 = "\<lparr>entityMap = buildEntityMap es, applied = [], skipped = []\<rparr>"
  have "\<forall>e \<in> snd ` set (entityMap ?st0). consistent e"
    using assms buildEntityMap_values [of es] by auto
  from fold_applyGroup_consistent [OF this, of mgs]
  show ?thesis by (simp add: applyMerges_def Let_def)
qed

subsection \<open>A merge group of distinct names\<close>






subsection \<open>The loop over the merge groups\<close>


lemma mergeLoop_append: "mergeLoop es (pre @ post) = fold applyGroup post (mergeLoop es pre)"
  by (simp add: mergeLoop_def)












subsection \<open>First appearance after a merge\<close>

lemma js_string_lt_irrefl: "\<not> js_string_lt s s"
  by (induction s) auto

lemma js_lt_object_never: "\<not> js_lt_object a b"
  by (simp add: js_lt_object_def object_toString_def js_string_lt_irrefl)

text \<open>
  C4. The claim asks that the primary adopts an absorbed entity's first appearance when
  that one is strictly earlier by chapter, then paragraph. The source compares the two
  position objects with \<^verbatim>\<open><\<close>, which compares their string conversions
  \<^verbatim>\<open>[object Object]\<close> and is never true: Vernon, first seen in chapter 2, absorbs
  Uncle Vernon, first seen in chapter 1, and keeps chapter 2.
\<close>

theorem applyMerges_keeps_later_firstAppearance:
  "map firstAppearance (entities (applyMerges
       [singleVariantEntity ''vernon'' ''Vernon'' 50 2 4,
        singleVariantEntity ''uncle_vernon'' ''Uncle Vernon'' 10 1 3]
       [JArr [JStr ''Vernon'', JStr ''Uncle Vernon'']])) =
   [Some \<lparr>fa_chapter = 2, fa_paragraph = 4, fa_form = Some ''Vernon''\<rparr>]"
  by (simp add: applyMerges_def applyGroup_def buildEntityMap_def entity_get_def
      List.map_filter_def sort_desc_def singleVariantEntity_def Let_def
      absorb_def deref_def adoptFirst_def or_empty_def js_lt_object_never)

subsection \<open>Failure of the provider call\<close>

text \<open>The causes the specification names all make the \<^verbatim>\<open>try\<close> block of \<open>llmCorefMerge\<close>
  throw.\<close>

lemma callProvider_provider_throws:
  "llmProvider (llmRequest entityNames) = Inl err \<Longrightarrow>
   callProvider llmProvider jsonParse entityNames = Inl err"
  by (simp add: callProvider_def)

lemma callProvider_no_json:
  "llmProvider (llmRequest entityNames) = Inr result \<Longrightarrow>
   jsonMatch (content result) = None \<Longrightarrow>
   callProvider llmProvider jsonParse entityNames = Inl (Error ''No JSON found in LLM response'')"
  by (simp add: callProvider_def Let_def)

lemma callProvider_malformed_json:
  "llmProvider (llmRequest entityNames) = Inr result \<Longrightarrow>
   jsonMatch (content result) = Some matched \<Longrightarrow> jsonParse matched = Inl err \<Longrightarrow>
   callProvider llmProvider jsonParse entityNames = Inl err"
  by (simp add: callProvider_def Let_def)

lemma callProvider_missing_merges:
  "llmProvider (llmRequest entityNames) = Inr result \<Longrightarrow>
   jsonMatch (content result) = Some matched \<Longrightarrow> jsonParse matched = Inr (JObj props) \<Longrightarrow>
   map_get props ''merges'' = None \<Longrightarrow>
   callProvider llmProvider jsonParse entityNames =
     Inl (Error ''Invalid response structure: missing merges array'')"
  by (simp add: callProvider_def Let_def parsedMerges_def)

lemma llmCorefMerge_throws:
  "entityNames \<noteq> [] \<Longrightarrow> callProvider llmProvider jsonParse entityNames = Inl err \<Longrightarrow>
   llmCorefMerge verbose llmProvider jsonParse entityNames = Inl (rethrown verbose err)"
  by (simp add: llmCorefMerge_def)

text \<open>A thrown value whose message can be read is what \<open>llmCorefMerge\<close> rethrows; under
  \<open>verbose\<close> the message of whatever it throws can be read.\<close>

lemma rethrown_readable: "readMessage err = Inr m \<Longrightarrow> rethrown verbose err = err"
  by (simp add: rethrown_def)

lemma rethrown_verbose: "\<exists>m. readMessage (rethrown True err) = Inr m"
  by (cases err) (simp_all add: rethrown_def)

text \<open>When \<open>llmCorefMerge\<close> throws a value whose message can be read, \<open>runCorefResolution\<close>
  returns the confirmed and candidate lists it was given, and its statistics carry the
  error string \<^verbatim>\<open>LLM call failed: \<close> followed by the message.\<close>

lemma runCorefResolution_degrades:
  assumes "llmCorefMerge verbose llmProvider jsonParse (allEntityNames confirmed cands) = Inl err"
    and "readMessage err = Inr m"
  shows "runCorefResolution verbose llmProvider jsonParse confirmed cands =
           Inr \<lparr>confirmedCharacters = confirmed, candidates = cands,
                corefStats = \<lparr>error = Some (''LLM call failed: '' @ showMessage m),
                               groupsIdentified = 0, entitiesMerged = 0,
                               stats_appliedMerges = [], stats_skippedMerges = [],
                               llmTokensUsed = None\<rparr>,
                debug = None\<rparr>"
  using assms by (simp add: runCorefResolution_def Let_def)

lemma runCorefResolution_verbose_degrades:
  assumes "llmCorefMerge True llmProvider jsonParse (allEntityNames confirmed cands) = Inl err"
  shows "\<exists>r. runCorefResolution True llmProvider jsonParse confirmed cands = Inr r \<and>
             confirmedCharacters r = confirmed \<and> candidates r = cands \<and>
             error (corefStats r) \<noteq> None"
proof -
  from assms obtain err0 where "err = rethrown True err0"
    by (auto simp: llmCorefMerge_def split: if_splits sum.splits)
  then obtain m where "readMessage err = Inr m" using rethrown_verbose [of err0] by auto
  from runCorefResolution_degrades [OF assms this] show ?thesis by simp
qed

text \<open>The error that leaves \<open>runCorefResolution\<close> is the one thrown by the read of the
  message in its \<^verbatim>\<open>catch\<close> block, and there is no other.\<close>

lemma runCorefResolution_propagates_iff:
  "runCorefResolution verbose llmProvider jsonParse confirmed cands = Inl e \<longleftrightarrow>
     (\<exists>err. llmCorefMerge verbose llmProvider jsonParse (allEntityNames confirmed cands) =
               Inl err \<and> readMessage err = Inl e)"
  by (auto simp: runCorefResolution_def Let_def split: sum.splits)

lemma runCorefResolution_degrades_on_error_object:
  assumes "entityNames = allEntityNames confirmed cands" and "entityNames \<noteq> []"
    and "callProvider llmProvider jsonParse entityNames = Inl (Error msg)"
  shows "\<exists>r. runCorefResolution verbose llmProvider jsonParse confirmed cands = Inr r \<and>
             confirmedCharacters r = confirmed \<and> candidates r = cands \<and>
             error (corefStats r) = Some (''LLM call failed: '' @ msg)"
proof -
  have r: "readMessage (Error msg) = Inr (Some msg)" by simp
  have "llmCorefMerge verbose llmProvider jsonParse (allEntityNames confirmed cands) =
          Inl (Error msg)"
    using llmCorefMerge_throws [OF assms(2,3), of verbose] rethrown_readable [OF r, of verbose]
    by (simp add: assms(1))
  from runCorefResolution_degrades [OF this r] show ?thesis by (simp add: showMessage_def)
qed

text \<open>
  C2. If the call of the provider inside \<open>runCorefResolution\<close> throws, whatever is thrown,
  the error is not propagated: the lists that were given are returned with a non-empty
  error string. The \<^verbatim>\<open>catch\<close> block, commented "Graceful degradation", does this for
  every thrown value of which it can read \<^verbatim>\<open>error.message\<close>, but it reads the property
  without a guard: a provider whose promise is rejected with \<^verbatim>\<open>undefined\<close> (as by
  \<^verbatim>\<open>setTimeout(reject, ms)\<close>) makes the block itself throw, and \<open>runCorefResolution\<close>
  rejects with that \<^verbatim>\<open>TypeError\<close>, whatever the entities and the parser.
\<close>

theorem runCorefResolution_propagates_rejection_with_undefined:
  "runCorefResolution False (\<lambda>request. Inl ThrownUndefined) jsonParse
     [singleVariantEntity ''vernon'' ''Vernon'' 50 2 4]
     [singleVariantEntity ''mr_dursley'' ''Mr Dursley'' 5 1 0] =
   Inl (TypeError (''Cannot read properties of undefined (reading '' @ [APOS] @ ''message'' @
          [APOS] @ '')''))"
  by (simp add: runCorefResolution_def llmCorefMerge_def callProvider_def rethrown_def
      allEntityNames_def)

text \<open>The same provider under \<open>verbose\<close>: the \<^verbatim>\<open>catch\<close> block of \<open>llmCorefMerge\<close> throws the
  \<^verbatim>\<open>TypeError\<close> first, and \<open>runCorefResolution\<close> degrades on it. So does an \<^verbatim>\<open>Error\<close> of the
  provider without \<open>verbose\<close>.\<close>

lemma runCorefResolution_verbose_undefined:
  "\<exists>r. runCorefResolution True (\<lambda>request. Inl ThrownUndefined) jsonParse
          [singleVariantEntity ''vernon'' ''Vernon'' 50 2 4]
          [singleVariantEntity ''mr_dursley'' ''Mr Dursley'' 5 1 0] = Inr r \<and>
       confirmedCharacters r = [singleVariantEntity ''vernon'' ''Vernon'' 50 2 4] \<and>
       candidates r = [singleVariantEntity ''mr_dursley'' ''Mr Dursley'' 5 1 0] \<and>
       error (corefStats r) =
         Some (''LLM call failed: Cannot read properties of undefined (reading '' @ [APOS] @
               ''message'' @ [APOS] @ '')'')"
  by (simp add: runCorefResolution_def llmCorefMerge_def callProvider_def rethrown_def
      allEntityNames_def showMessage_def)

lemma runCorefResolution_fetch_failed:
  "\<exists>r. runCorefResolution False (\<lambda>request. Inl (Error ''fetch failed'')) jsonParse
          [singleVariantEntity ''vernon'' ''Vernon'' 50 2 4]
          [singleVariantEntity ''mr_dursley'' ''Mr Dursley'' 5 1 0] = Inr r \<and>
       confirmedCharacters r = [singleVariantEntity ''vernon'' ''Vernon'' 50 2 4] \<and>
       candidates r = [singleVariantEntity ''mr_dursley'' ''Mr Dursley'' 5 1 0] \<and>
       error (corefStats r) = Some ''LLM call failed: fetch failed''"
  by (simp add: runCorefResolution_def llmCorefMerge_def callProvider_def rethrown_def
      allEntityNames_def showMessage_def)

subsection \<open>The co-occurrence index\<close>

lemma map_get_map_set: "map_get (map_set k v m) k' = (if k' = k then Some v else map_get m k')"
  by (induction k v m rule: map_set.induct) auto

lemma map_get_map_values:
  "map_get (map (\<lambda>(k, v). (k, f v)) m) k = map_option f (map_get m k)"
  by (induction m) auto

lemma indexPush_lookup:
  "or_empty (map_get (indexPush key sid idx) k) =
     or_empty (map_get idx k) @ (if k = key then [sid] else [])"
  by (auto simp: indexPush_def map_get_map_set or_empty_def split: option.splits)

lemma fold_indexPush_lookup:
  "or_empty (map_get (fold (\<lambda>p idx. indexPush (pairKey p) sid idx) ps idx) k) =
     or_empty (map_get idx k) @ map (\<lambda>p. sid) (filter (\<lambda>p. pairKey p = k) ps)"
  by (induction ps arbitrary: idx) (auto simp: indexPush_lookup)

lemma fold_addSnippetPairs_lookup:
  "or_empty (map_get (fold addSnippetPairs ss idx) k) =
     or_empty (map_get idx k) @ concat (map (snippetIds k) ss)"
  by (induction ss arbitrary: idx)
     (auto simp: addSnippetPairs_def fold_indexPush_lookup snippetIds_def)

lemma count_list_insort_key:
  "count_list (insort_key f y xs) x = count_list (y # xs) x"
  by (induction xs) auto

lemma count_list_sort_key: "count_list (sort_key f xs) x = count_list xs x"
  by (induction xs) (auto simp: count_list_insort_key)

lemma count_list_all_same: "set xs \<subseteq> {i} \<Longrightarrow> count_list xs i = length xs"
  by (induction xs) auto

lemma count_list_concat_own:
  assumes "distinct (map snip_id ss)" and "s \<in> set ss"
    and "\<And>t. set (g t) \<subseteq> {snip_id t}"
  shows "count_list (concat (map g ss)) (snip_id s) = length (g s)"
  using assms(1,2)
proof (induction ss)
  case Nil
  then show ?case by simp
next
  case (Cons t ss)
  have own: "count_list (g u) (snip_id u) = length (g u)" for u
    using assms(3) [of u] by (rule count_list_all_same)
  have other: "count_list (g u) i = 0" if "i \<noteq> snip_id u" for u i
    using assms(3) [of u] that by (auto simp: count_list_0_iff)
  show ?case
  proof (cases "s = t")
    case True
    have notin: "snip_id t \<notin> snip_id ` set ss" using Cons.prems(1) by simp
    have "count_list (g u) (snip_id t) = 0" if "u \<in> set ss" for u
    proof (rule other)
      show "snip_id t \<noteq> snip_id u" using notin that by blast
    qed
    then have "count_list (concat (map g ss)) (snip_id t) = 0"
      by (induction ss) simp_all
    then show ?thesis using True own by simp
  next
    case False
    then have in_ss: "s \<in> set ss" using Cons.prems(2) by simp
    then have "snip_id s \<in> snip_id ` set ss" by (rule imageI)
    then have "snip_id s \<noteq> snip_id t" using Cons.prems(1) by auto
    then have "count_list (g t) (snip_id s) = 0" by (rule other)
    then show ?thesis using Cons.IH in_ss Cons.prems(1) by simp
  qed
qed

lemma pairs_components: "p \<in> set (pairs xs) \<Longrightarrow> fst p \<in> set xs \<and> snd p \<in> set xs"
  by (induction xs) auto

lemma count_list_map_Pair:
  "count_list (map (Pair z) zs) (x, y) = (if x = z then count_list zs y else 0)"
  by (induction zs) auto

lemma count_list_distinct: "distinct xs \<Longrightarrow> x \<in> set xs \<Longrightarrow> count_list xs x = 1"
  by (induction xs) (auto simp: count_list_0_iff)

lemma pairs_count:
  assumes "sorted xs" and "distinct xs" and "x \<in> set xs" and "y \<in> set xs" and "x < y"
  shows "count_list (pairs xs) (x, y) = 1"
  using assms
proof (induction xs)
  case Nil
  then show ?case by simp
next
  case (Cons z zs)
  have zless: "\<forall>u \<in> set zs. z < u" using Cons.prems(1,2) by (auto simp: less_le)
  show ?case
  proof (cases "x = z")
    case True
    then have y: "y \<in> set zs" using Cons.prems(4,5) by auto
    have "(z, y) \<notin> set (pairs zs)"
      using Cons.prems(2) pairs_components [of "(z, y)" zs] by auto
    then have "count_list (pairs zs) (z, y) = 0" by (simp add: count_list_0_iff)
    then show ?thesis
      using True y Cons.prems(2) by (simp add: count_list_map_Pair count_list_distinct)
  next
    case False
    then have x: "x \<in> set zs" using Cons.prems(3) by simp
    then have "z < y" using zless Cons.prems(5) by force
    then have y: "y \<in> set zs" using Cons.prems(4) by auto
    show ?thesis using False x y Cons by (simp add: count_list_map_Pair)
  qed
qed

lemma pairKey_inject:
  assumes "CHR ''+'' \<notin> set a" and "CHR ''+'' \<notin> set c"
  shows "pairKey (a, b) = pairKey (c, d) \<longleftrightarrow> a = c \<and> b = d"
  using assms
proof (induction a arbitrary: c)
  case Nil
  then show ?case by (cases c) (auto simp: pairKey_def)
next
  case (Cons x a)
  show ?case
  proof (cases c)
    case Nil
    then show ?thesis using Cons.prems by (auto simp: pairKey_def)
  next
    case (Cons y c')
    then show ?thesis using Cons.IH [of c'] Cons.prems by (auto simp: pairKey_def)
  qed
qed

lemma length_filter_eq_count:
  "(\<And>p. p \<in> set ps \<Longrightarrow> P p \<longleftrightarrow> p = q) \<Longrightarrow> length (filter P ps) = count_list ps q"
  by (induction ps) auto

text \<open>
  C8, as amended. In a snippet list with pairwise distinct snippet ids, for a snippet
  whose entity list names no entity twice and whose entity ids contain no \<open>+\<close>, and two
  different entity ids of it: the index has the key made of the smaller id, \<open>+\<close> and
  the larger id, and the list under that key contains the snippet's id exactly once,
  whatever the order of the two ids in the snippet's entity list.
\<close>

theorem buildCooccurrenceIndex_pair_once:
  assumes "s \<in> set snippets"
    and "a \<in> set (snip_entities s)" and "b \<in> set (snip_entities s)" and "a \<noteq> b"
    and "distinct (map snip_id snippets)"
    and "distinct (snip_entities s)"
    and "\<forall>e \<in> set (snip_entities s). CHR ''+'' \<notin> set e"
  shows "\<exists>ids. map_get (buildCooccurrenceIndex snippets) (pairKey (min a b, max a b)) = Some ids \<and>
               count_list ids (snip_id s) = 1"
proof -
  define k where "k = pairKey (min a b, max a b)"
  define xs where "xs = sort (snip_entities s)"
  have mn: "min a b \<in> set xs" "max a b \<in> set xs" "min a b < max a b"
    using assms(2,3,4) by (auto simp: xs_def min_def max_def)
  have sd: "sorted xs" "distinct xs" using assms(6) by (simp_all add: xs_def)
  have plus: "\<forall>e \<in> set xs. CHR ''+'' \<notin> set e" using assms(7) by (simp add: xs_def)
  have "pairKey p = k \<longleftrightarrow> p = (min a b, max a b)" if "p \<in> set (pairs xs)" for p
  proof -
    have "fst p \<in> set xs" using pairs_components [OF that] by simp
    then have "CHR ''+'' \<notin> set (fst p)" "CHR ''+'' \<notin> set (min a b)" using plus mn(1) by auto
    from pairKey_inject [OF this, of "snd p" "max a b"] show ?thesis
      by (cases p) (simp add: k_def)
  qed
  then have "length (filter (\<lambda>p. pairKey p = k) (pairs xs)) = count_list (pairs xs) (min a b, max a b)"
    by (rule length_filter_eq_count)
  also have "\<dots> = 1" by (rule pairs_count [OF sd mn])
  finally have own: "length (snippetIds k s) = 1" by (simp add: snippetIds_def xs_def)
  have "count_list (concat (map (snippetIds k) snippets)) (snip_id s) = length (snippetIds k s)"
    by (rule count_list_concat_own [OF assms(5) assms(1)]) (auto simp: snippetIds_def)
  then have c: "count_list (concat (map (snippetIds k) snippets)) (snip_id s) = 1"
    using own by simp
  define raw where "raw = fold addSnippetPairs snippets []"
  have l: "or_empty (map_get raw k) = concat (map (snippetIds k) snippets)"
    using fold_addSnippetPairs_lookup [of snippets "[]" k] by (simp add: raw_def or_empty_def)
  have "concat (map (snippetIds k) snippets) \<noteq> []"
  proof
    assume "concat (map (snippetIds k) snippets) = []"
    then have "count_list (concat (map (snippetIds k) snippets)) (snip_id s) = 0"
      by (simp only: count_list.simps)
    then show False using c by simp
  qed
  then have "or_empty (map_get raw k) \<noteq> []" using l by simp
  then obtain ids where ids: "map_get raw k = Some ids"
    by (cases "map_get raw k") (auto simp: or_empty_def)
  then have "count_list ids (snip_id s) = 1" using l c by (simp add: or_empty_def)
  then have "count_list (sort ids) (snip_id s) = 1" by (simp add: count_list_sort_key)
  moreover have "map_get (buildCooccurrenceIndex snippets) k = Some (sort ids)"
    using ids by (simp add: buildCooccurrenceIndex_def raw_def [symmetric] map_get_map_values)
  ultimately show ?thesis unfolding k_def by blast
qed

theorem buildCooccurrenceIndex_pair_once_witness:
  "\<exists>ids. map_get (buildCooccurrenceIndex
            [plainSnippet ''s_0000'' 1 0 0 [''ron'', ''harry''],
             plainSnippet ''s_0001'' 1 0 4 [''harry'', ''hermione'', ''ron'']])
          ''harry+ron'' = Some ids \<and>
         count_list ids ''s_0000'' = 1"
proof -
  let ?s = "plainSnippet ''s_0000'' 1 0 0 [''ron'', ''harry'']"
  let ?ss = "[?s, plainSnippet ''s_0001'' 1 0 4 [''harry'', ''hermione'', ''ron'']]"
  have 1: "?s \<in> set ?ss" by simp
  have 2: "''ron'' \<in> set (snip_entities ?s)" "''harry'' \<in> set (snip_entities ?s)"
    by (simp_all add: plainSnippet_def)
  have 3: "''ron'' \<noteq> ''harry''" by simp
  have 4: "distinct (map snip_id ?ss)" by (simp add: plainSnippet_def)
  have 5: "distinct (snip_entities ?s)" by (simp add: plainSnippet_def)
  have 6: "\<forall>e \<in> set (snip_entities ?s). CHR ''+'' \<notin> set e" by (simp add: plainSnippet_def)
  have 7: "pairKey (min ''ron'' ''harry'', max ''ron'' ''harry'') = ''harry+ron''"
    by (simp add: pairKey_def min_def max_def less_eq_char_def less_char_def)
  have 8: "snip_id ?s = ''s_0000''" by (simp add: plainSnippet_def)
  show ?thesis
    using buildCooccurrenceIndex_pair_once [OF 1 2 3 4 5 6] unfolding 7 8 .
qed

text \<open>
  C8 as stated, for every snippet list, fails when a snippet's entity list repeats an
  id: the pair is then generated twice and the snippet's id is pushed twice.
\<close>

theorem buildCooccurrenceIndex_repeated_entity_counterexample:
  "map_get (buildCooccurrenceIndex [plainSnippet ''s_0000'' 1 0 0 [''ron'', ''harry'', ''ron'']])
     ''harry+ron'' = Some [''s_0000'', ''s_0000'']"
  by (simp add: buildCooccurrenceIndex_def addSnippetPairs_def indexPush_def pairKey_def
      plainSnippet_def less_eq_char_def less_char_def)

subsection \<open>Deduplication of snippets that are already apart\<close>

lemma map_get_of_member: "distinct (map fst m) \<Longrightarrow> (k, v) \<in> set m \<Longrightarrow> map_get m k = Some v"
  by (induction m) (auto simp: image_iff)

lemma groupBy_fold_lookup:
  "map_get (fold (\<lambda>item groups.
                    case map_get groups (f item) of
                      None \<Rightarrow> map_set (f item) [item] groups
                    | Some g \<Rightarrow> map_set (f item) (g @ [item]) groups) xs acc) k =
     (case map_get acc k of
        None \<Rightarrow> (if filter (\<lambda>x. f x = k) xs = [] then None
                  else Some (filter (\<lambda>x. f x = k) xs))
      | Some g \<Rightarrow> Some (g @ filter (\<lambda>x. f x = k) xs))"
proof (induction xs arbitrary: acc)
  case Nil
  then show ?case by (simp split: option.splits)
next
  case (Cons x xs)
  show ?case
    by (cases "map_get acc (f x)"; cases "map_get acc k")
       (auto simp: Cons.IH map_get_map_set)
qed

lemma groupBy_fold_distinct:
  "distinct (map fst acc) \<Longrightarrow>
   distinct (map fst (fold (\<lambda>item groups.
                    case map_get groups (f item) of
                      None \<Rightarrow> map_set (f item) [item] groups
                    | Some g \<Rightarrow> map_set (f item) (g @ [item]) groups) xs acc))"
proof (induction xs arbitrary: acc)
  case Nil
  then show ?case by simp
next
  case (Cons x xs)
  show ?case
    by (cases "map_get acc (f x)") (simp_all add: Cons.IH Cons.prems map_set_distinct)
qed

lemma groupBy_lookup:
  "map_get (groupBy f xs) k =
     (if filter (\<lambda>x. f x = k) xs = [] then None else Some (filter (\<lambda>x. f x = k) xs))"
  unfolding groupBy_def by (simp add: groupBy_fold_lookup)

lemma groupBy_distinct: "distinct (map fst (groupBy f xs))"
  unfolding groupBy_def by (rule groupBy_fold_distinct) simp

lemma groupBy_member:
  assumes "(k, g) \<in> set (groupBy f xs)"
  shows "g = filter (\<lambda>x. f x = k) xs" and "g \<noteq> []"
proof -
  have "map_get (groupBy f xs) k = Some g"
    by (rule map_get_of_member [OF groupBy_distinct assms])
  then show "g = filter (\<lambda>x. f x = k) xs" and "g \<noteq> []"
    by (auto simp: groupBy_lookup split: if_splits)
qed

lemma groupBy_has_key:
  assumes "filter (\<lambda>x. f x = k) xs \<noteq> []"
  shows "k \<in> fst ` set (groupBy f xs)"
proof -
  have "map_get (groupBy f xs) k = Some (filter (\<lambda>x. f x = k) xs)"
    using assms by (simp add: groupBy_lookup)
  then have "(k, filter (\<lambda>x. f x = k) xs) \<in> set (groupBy f xs)" by (rule map_get_in_set)
  then show ?thesis by force
qed

lemma mergeRun_apart: "successively gapOver2 (c # rest) \<Longrightarrow> mergeRun c rest = c # rest"
  by (induction rest arbitrary: c) (auto simp: gapOver2_def Let_def)

lemma dedupeGroup_apart:
  assumes "g \<noteq> []" and "successively gapOver2 (sort_key startSentence g)"
  shows "dedupeGroup g = sort_key startSentence g"
proof -
  have "sort_key startSentence g \<noteq> []" using assms(1) by (auto simp flip: set_empty)
  then obtain c rest where cr: "sort_key startSentence g = c # rest"
    by (cases "sort_key startSentence g") auto
  then have "mergeRun c rest = c # rest" using assms(2) by (simp add: mergeRun_apart)
  then show ?thesis by (simp add: dedupeGroup_def cr)
qed

lemma sort_key_same_key: "\<forall>x \<in> set xs. f x = c \<Longrightarrow> sort_key f xs = xs"
proof (induction xs)
  case Nil
  then show ?case by simp
next
  case (Cons x xs)
  then have "sort_key f xs = xs" by simp
  moreover have "insort_key f x xs = x # xs"
    using Cons.prems by (intro insort_is_Cons) simp
  ultimately show ?case by simp
qed

lemma concat_unique_key:
  "distinct (map fst m) \<Longrightarrow>
   concat (map (\<lambda>kg. if fst kg = k0 then F else []) m) = (if k0 \<in> fst ` set m then F else [])"
  by (induction m) (auto simp: image_iff)

lemma mset_eq_by_filters:
  assumes "\<And>K. filter (\<lambda>x. f x = K) as = filter (\<lambda>x. f x = K) bs"
  shows "mset as = mset bs"
proof (rule multiset_eqI)
  fix x
  have "Multiset.count (mset as) x = Multiset.count (mset (filter (\<lambda>y. f y = f x) as)) x"
    by simp
  also have "\<dots> = Multiset.count (mset (filter (\<lambda>y. f y = f x) bs)) x"
    by (simp only: assms)
  also have "\<dots> = Multiset.count (mset bs) x" by simp
  finally show "Multiset.count (mset as) x = Multiset.count (mset bs) x" .
qed

lemma sort_key_eq_by_filters:
  assumes "\<And>K. filter (\<lambda>x. f x = K) as = filter (\<lambda>x. f x = K) bs"
  shows "sort_key f as = sort_key f bs"
proof (rule properties_for_sort_key)
  show "mset (sort_key f bs) = mset as" using mset_eq_by_filters [OF assms] by simp
  show "sorted (map f (sort_key f bs))" by simp
  fix k
  have "filter (\<lambda>x. f x = f k) (sort_key f bs) = filter (\<lambda>x. f x = f k) as"
    by (simp add: sort_key_stable assms)
  moreover have "(\<lambda>x. f k = f x) = (\<lambda>x. f x = f k)" by auto
  ultimately show "filter (\<lambda>x. f k = f x) (sort_key f bs) = filter (\<lambda>x. f k = f x) as"
    by simp
qed

lemma renumber_keeps:
  "map (\<lambda>s. s\<lparr>snip_id := []\<rparr>) (map (\<lambda>(i, s). s\<lparr>snip_id := g i\<rparr>) (enumerate n ys)) =
   map (\<lambda>s. s\<lparr>snip_id := []\<rparr>) ys"
  by (induction ys arbitrary: n) auto

lemma renumber_ids:
  "map snip_id (map (\<lambda>(i, s). s\<lparr>snip_id := g i\<rparr>) (enumerate n ys)) =
   map g [n ..< n + length ys]"
proof (induction ys arbitrary: n)
  case Nil
  then show ?case by simp
next
  case (Cons y ys)
  have "[n ..< n + length (y # ys)] = n # [Suc n ..< Suc n + length ys]"
    by (simp add: upt_rec)
  then show ?case using Cons.IH [of "Suc n"] by simp
qed

lemma dedupeSnippets_apart:
  assumes "\<And>k. successively gapOver2 (sort_key startSentence (inParagraph k snippets))"
  shows "dedupeSnippets snippets = renumber (sort_key documentKey snippets)"
proof (cases "snippets = []")
  case True
  then show ?thesis by (simp add: dedupeSnippets_def renumber_def)
next
  case False
  define pk :: "snippet \<Rightarrow> nat \<times> nat"
    where "pk = (\<lambda>s. (snip_chapter s, paragraphIndex (snip_location s)))"
  define groups where "groups = groupBy pk snippets"
  define deduped where "deduped = concat (map (\<lambda>(k, g). dedupeGroup g) groups)"
  have par: "inParagraph k snippets = filter (\<lambda>x. pk x = k) snippets" for k
    by (simp add: inParagraph_def pk_def)
  have grp: "dedupeGroup g = sort_key startSentence g" if "(k, g) \<in> set groups" for k g
  proof -
    have g: "g = filter (\<lambda>x. pk x = k) snippets" "g \<noteq> []"
      using groupBy_member [of k g pk snippets] that by (simp_all add: groups_def)
    have "successively gapOver2 (sort_key startSentence g)"
      using assms [of k] by (simp add: par g(1))
    then show ?thesis using g(2) by (simp add: dedupeGroup_apart)
  qed
  have filt: "filter (\<lambda>x. documentKey x = K) deduped = filter (\<lambda>x. documentKey x = K) snippets"
    for K
  proof -
    obtain c p st where K: "K = (c, p, st)" by (cases K)
    define F where "F = filter (\<lambda>x. documentKey x = K) snippets"
    have dk: "documentKey x = K \<longleftrightarrow> pk x = (c, p) \<and> startSentence x = st" for x
      by (auto simp: documentKey_def pk_def K)
    have each: "filter (\<lambda>x. documentKey x = K) (dedupeGroup g) = (if k = (c, p) then F else [])"
      if "(k, g) \<in> set groups" for k g
    proof -
      have g: "g = filter (\<lambda>x. pk x = k) snippets"
        using groupBy_member(1) [of k g pk snippets] that by (simp add: groups_def)
      have "filter (\<lambda>x. documentKey x = K) (dedupeGroup g) =
              sort_key startSentence (filter (\<lambda>x. documentKey x = K) g)"
        by (simp add: grp [OF that] filter_sort)
      also have "\<dots> = filter (\<lambda>x. documentKey x = K) g"
        by (rule sort_key_same_key [of _ _ st]) (simp add: dk)
      also have "\<dots> = (if k = (c, p) then F else [])"
      proof (cases "k = (c, p)")
        case True
        have "(\<lambda>x. pk x = (c, p) \<and> documentKey x = K) = (\<lambda>x. documentKey x = K)"
          by (auto simp: dk)
        then show ?thesis using True by (simp add: g F_def)
      next
        case False
        have "(\<lambda>x. pk x = k \<and> documentKey x = K) = (\<lambda>x. False)"
          using False by (auto simp: dk)
        then show ?thesis using False by (simp add: g)
      qed
      finally show ?thesis .
    qed
    have "filter (\<lambda>x. documentKey x = K) deduped =
            concat (map (\<lambda>kg. filter (\<lambda>x. documentKey x = K) (dedupeGroup (snd kg))) groups)"
      by (simp add: deduped_def filter_concat comp_def case_prod_beta)
    also have "\<dots> = concat (map (\<lambda>kg. if fst kg = (c, p) then F else []) groups)"
    proof -
      have "map (\<lambda>kg. filter (\<lambda>x. documentKey x = K) (dedupeGroup (snd kg))) groups =
            map (\<lambda>kg. if fst kg = (c, p) then F else []) groups"
      proof (rule map_cong [OF refl])
        fix kg assume "kg \<in> set groups"
        then have "(fst kg, snd kg) \<in> set groups" by simp
        from each [OF this]
        show "filter (\<lambda>x. documentKey x = K) (dedupeGroup (snd kg)) =
                (if fst kg = (c, p) then F else [])" .
      qed
      then show ?thesis by (rule arg_cong)
    qed
    also have "\<dots> = (if (c, p) \<in> fst ` set groups then F else [])"
      by (rule concat_unique_key) (simp add: groups_def groupBy_distinct)
    also have "\<dots> = F"
    proof (cases "filter (\<lambda>x. pk x = (c, p)) snippets = []")
      case True
      then have "\<forall>x \<in> set snippets. pk x \<noteq> (c, p)" by (simp add: filter_empty_conv)
      then have "F = []" by (simp add: F_def filter_empty_conv dk)
      then show ?thesis by simp
    next
      case False
      then have "(c, p) \<in> fst ` set groups"
        unfolding groups_def by (rule groupBy_has_key)
      then show ?thesis by simp
    qed
    finally show ?thesis by (simp add: F_def)
  qed
  have "sort_key documentKey deduped = sort_key documentKey snippets"
    by (rule sort_key_eq_by_filters) (rule filt)
  then show ?thesis
    using False by (simp add: dedupeSnippets_def Let_def deduped_def groups_def pk_def)
qed

text \<open>
  C7. If in every (chapter, paragraph) group the snippets, ordered by their first
  sentence, have a gap of more than 2 between each one and the next, then
  \<open>dedupeSnippets\<close> returns the same snippets in document order (chapter, paragraph,
  first sentence; the order of the list among equals), each unchanged except for its
  id, and the ids are \<^verbatim>\<open>s_0000\<close>, \<^verbatim>\<open>s_0001\<close>, ... in that order.
\<close>

theorem dedupeSnippets_idempotent:
  assumes "\<forall>k. successively gapOver2 (sort_key startSentence (inParagraph k snippets))"
  shows "map (\<lambda>s. s\<lparr>snip_id := []\<rparr>) (dedupeSnippets snippets) =
           map (\<lambda>s. s\<lparr>snip_id := []\<rparr>) (sort_key documentKey snippets) \<and>
         map snip_id (dedupeSnippets snippets) =
           map (\<lambda>i. ''s_'' @ padStart4 (show_nat i)) [0 ..< length snippets]"
proof -
  have "dedupeSnippets snippets = renumber (sort_key documentKey snippets)"
    by (rule dedupeSnippets_apart) (use assms in blast)
  then show ?thesis
    using renumber_keeps [of "\<lambda>i. ''s_'' @ padStart4 (show_nat i)" 0 "sort_key documentKey snippets"]
      renumber_ids [of "\<lambda>i. ''s_'' @ padStart4 (show_nat i)" 0 "sort_key documentKey snippets"]
    by (simp add: renumber_def)
qed

theorem dedupeSnippets_idempotent_witness:
  "map (\<lambda>s. s\<lparr>snip_id := []\<rparr>)
     (dedupeSnippets [plainSnippet ''s_0007'' 2 0 0 [''harry''],
                      plainSnippet ''s_0003'' 1 3 9 [''ron''],
                      plainSnippet ''s_0002'' 1 3 5 [''harry'', ''ron'']]) =
   map (\<lambda>s. s\<lparr>snip_id := []\<rparr>)
     [plainSnippet ''s_0002'' 1 3 5 [''harry'', ''ron''],
      plainSnippet ''s_0003'' 1 3 9 [''ron''],
      plainSnippet ''s_0007'' 2 0 0 [''harry'']] \<and>
   map snip_id
     (dedupeSnippets [plainSnippet ''s_0007'' 2 0 0 [''harry''],
                      plainSnippet ''s_0003'' 1 3 9 [''ron''],
                      plainSnippet ''s_0002'' 1 3 5 [''harry'', ''ron'']]) =
   [''s_0000'', ''s_0001'', ''s_0002'']"
proof -
  let ?ss = "[plainSnippet ''s_0007'' 2 0 0 [''harry''],
              plainSnippet ''s_0003'' 1 3 9 [''ron''],
              plainSnippet ''s_0002'' 1 3 5 [''harry'', ''ron'']]"
  have apart: "\<forall>k. successively gapOver2 (sort_key startSentence (inParagraph k ?ss))"
    by (simp add: inParagraph_def plainSnippet_def gapOver2_def startSentence_def
        endSentence_def)
  have order: "sort_key documentKey ?ss =
                 [plainSnippet ''s_0002'' 1 3 5 [''harry'', ''ron''],
                  plainSnippet ''s_0003'' 1 3 9 [''ron''],
                  plainSnippet ''s_0007'' 2 0 0 [''harry'']]"
    by (simp add: documentKey_def plainSnippet_def startSentence_def)
  have ids: "map (\<lambda>i. ''s_'' @ padStart4 (show_nat i)) [0 ..< length ?ss] =
               [''s_0000'', ''s_0001'', ''s_0002'']"
    by code_simp
  show ?thesis
    using dedupeSnippets_idempotent [OF apart] unfolding order ids .
qed

subsection \<open>The list-separation heuristic of the junk filter\<close>








subsection \<open>Bare titles are never confirmed\<close>

lemma testRe_at_start: "ends ci r (None, s) \<noteq> [] \<Longrightarrow> testRe ci r s"
  by (cases s; cases "ends ci r (None, s)") (simp_all add: testRe_def isMatch_def)

lemma litEnds_self:
  "litEnds ci w (prev, w @ rest) = [(if w = [] then prev else Some (last w), rest)]"
  by (induction w arbitrary: prev) auto

lemma ends_alts_member:
  "r \<in> set rs \<Longrightarrow> e \<in> set (ends ci r cur) \<Longrightarrow> e \<in> set (ends ci (alts rs) cur)"
  by (induction rs rule: alts.induct) auto

lemma ends_Seq_member:
  "e1 \<in> set (ends ci r1 cur) \<Longrightarrow> e2 \<in> set (ends ci r2 e1) \<Longrightarrow>
   e2 \<in> set (ends ci (Seq r1 r2) cur)"
  by auto

lemma starEnds_self: "cur \<in> set (starEnds P cur)"
  by (cases cur; cases "snd cur") (auto split: if_splits)

lemma titleAlternatives_eq: "titleAlternatives = alts (map Lit titleWords)"
  by (simp add: titleAlternatives_def titleWords_def)

lemma title_end:
  assumes "t \<in> set titleWords"
  shows "(Some (last t), rest) \<in> set (ends True titleAlternatives (None, t @ rest))"
proof -
  have "t \<noteq> []" using assms by (auto simp: titleWords_def)
  then have "(Some (last t), rest) \<in> set (ends True (Lit t) (None, t @ rest))"
    by (simp add: litEnds_self)
  moreover have "Lit t \<in> set (map Lit titleWords)" using assms by simp
  ultimately show ?thesis unfolding titleAlternatives_eq by (rule ends_alts_member [rotated])
qed

lemma period_end:
  "(Some (CHR ''.''), rest) \<in> set (ends True (Opt (Lit ''.'')) (prev, ''.'' @ rest))"
  by simp

lemma no_period_end: "cur \<in> set (ends True (Opt (Lit ''.'')) cur)"
  by simp

lemma bareTitleName_disqualified:
  assumes "bareTitleName nm"
  shows "testRe True bareTitleRe nm"
proof -
  from assms obtain t where t: "t \<in> set titleWords" and nm: "nm = t \<or> nm = t @ ''.''"
    by (auto simp: bareTitleName_def list_ex_iff)
  have re: "bareTitleRe = Seq Bos (Seq titleAlternatives (Seq (Opt (Lit ''.'')) Eos))"
    by (simp add: bareTitleRe_def)
  have bos: "(None, s) \<in> set (ends True Bos (None, s))" for s by simp
  from nm have "\<exists>e. e \<in> set (ends True bareTitleRe (None, nm))"
  proof
    assume "nm = t"
    then have nm': "nm = t @ []" by simp
    have "(Some (last t), []) \<in> set (ends True (Seq (Opt (Lit ''.'')) Eos) (Some (last t), []))"
      by simp
    with title_end [OF t, of "[]"]
    have "(Some (last t), []) \<in>
            set (ends True (Seq titleAlternatives (Seq (Opt (Lit ''.'')) Eos)) (None, t @ []))"
      by (rule ends_Seq_member)
    with bos have "(Some (last t), []) \<in> set (ends True bareTitleRe (None, t @ []))"
      unfolding re by (rule ends_Seq_member)
    then show ?thesis unfolding nm' by blast
  next
    assume nm': "nm = t @ ''.''"
    have "(Some (CHR ''.''), []) \<in>
            set (ends True (Seq (Opt (Lit ''.'')) Eos) (Some (last t), ''.''))"
      by simp
    with title_end [OF t, of "''.''"]
    have "(Some (CHR ''.''), []) \<in>
            set (ends True (Seq titleAlternatives (Seq (Opt (Lit ''.'')) Eos)) (None, t @ ''.''))"
      by (rule ends_Seq_member)
    with bos have "(Some (CHR ''.''), []) \<in> set (ends True bareTitleRe (None, t @ ''.''))"
      unfolding re by (rule ends_Seq_member)
    then show ?thesis unfolding nm' by blast
  qed
  then have "ends True bareTitleRe (None, nm) \<noteq> []" by auto
  then show ?thesis by (rule testRe_at_start)
qed

lemma titleInitialName_disqualified:
  assumes "titleInitialName nm"
  shows "testRe True titleLetterRe nm"
proof -
  from assms obtain t c where t: "t \<in> set titleWords" and c: "c \<in> set upperChars"
    and nm: "nm = t @ '' '' @ [c] \<or> nm = t @ ''. '' @ [c]"
    by (auto simp: titleInitialName_def list_ex_iff)
  have letter: "is_letter c" using c by (simp add: is_letter_def is_upper_def)
  have re: "titleLetterRe =
              Seq Bos (Seq titleAlternatives (Seq (Opt (Lit ''.''))
                (Seq (Plus is_space) (Seq (Cls is_letter) Eos))))"
    by (simp add: titleLetterRe_def)
  have bos: "(None, s) \<in> set (ends True Bos (None, s))" for s by simp
  have tail: "(Some c, []) \<in>
                set (ends True (Seq (Plus is_space) (Seq (Cls is_letter) Eos)) (p, '' '' @ [c]))"
    for p
    using letter by (simp add: is_space_def)
  from nm have "\<exists>e. e \<in> set (ends True titleLetterRe (None, nm))"
  proof
    assume nm': "nm = t @ '' '' @ [c]"
    from no_period_end tail
    have "(Some c, []) \<in>
            set (ends True (Seq (Opt (Lit ''.'')) (Seq (Plus is_space) (Seq (Cls is_letter) Eos)))
                   (Some (last t), '' '' @ [c]))"
      by (rule ends_Seq_member)
    with title_end [OF t, of "'' '' @ [c]"]
    have "(Some c, []) \<in>
            set (ends True (Seq titleAlternatives (Seq (Opt (Lit ''.''))
                   (Seq (Plus is_space) (Seq (Cls is_letter) Eos)))) (None, t @ '' '' @ [c]))"
      by (rule ends_Seq_member)
    with bos have "(Some c, []) \<in> set (ends True titleLetterRe (None, t @ '' '' @ [c]))"
      unfolding re by (rule ends_Seq_member)
    then show ?thesis unfolding nm' by blast
  next
    assume nm': "nm = t @ ''. '' @ [c]"
    have "(Some (CHR ''.''), '' '' @ [c]) \<in>
            set (ends True (Opt (Lit ''.'')) (Some (last t), ''.'' @ '' '' @ [c]))"
      by (rule period_end)
    from this tail
    have "(Some c, []) \<in>
            set (ends True (Seq (Opt (Lit ''.'')) (Seq (Plus is_space) (Seq (Cls is_letter) Eos)))
                   (Some (last t), ''.'' @ '' '' @ [c]))"
      by (rule ends_Seq_member)
    with title_end [OF t, of "''.'' @ '' '' @ [c]"]
    have "(Some c, []) \<in>
            set (ends True (Seq titleAlternatives (Seq (Opt (Lit ''.''))
                   (Seq (Plus is_space) (Seq (Cls is_letter) Eos))))
                   (None, t @ ''.'' @ '' '' @ [c]))"
      by (rule ends_Seq_member)
    with bos have "(Some c, []) \<in> set (ends True titleLetterRe (None, t @ ''.'' @ '' '' @ [c]))"
      unfolding re by (rule ends_Seq_member)
    then have "(Some c, []) \<in> set (ends True titleLetterRe (None, t @ ''. '' @ [c]))" by simp
    then show ?thesis unfolding nm' by blast
  qed
  then have "ends True titleLetterRe (None, nm) \<noteq> []" by auto
  then show ?thesis by (rule testRe_at_start)
qed

lemma checkTier1Qualification_disqualified:
  assumes "bareTitleName (g_canonicalName g) \<or> titleInitialName (g_canonicalName g)"
  shows "checkTier1Qualification titlePrefixes g swc mc pc a b c = None"
  using assms bareTitleName_disqualified titleInitialName_disqualified
  by (auto simp: checkTier1Qualification_def Let_def)

lemma tierStep_confirmed:
  "tier_confirmedCharacters (tierStep tp swc mc pc opts g res) =
     tier_confirmedCharacters res @
     (case checkTier1Qualification tp g swc mc pc (minPossessiveForConfirm opts)
             (minMentionsForPossessiveConfirm opts) (minIndependentPartMentions opts) of
        None \<Rightarrow> [] | Some why \<Rightarrow> [confirmedEntity g why])"
  by (simp add: tierStep_def split: option.splits)

lemma fold_tierStep_confirmed:
  "e \<in> set (tier_confirmedCharacters (fold (tierStep tp swc mc pc opts) gs res)) \<Longrightarrow>
   e \<in> set (tier_confirmedCharacters res) \<or>
   (\<exists>g \<in> set gs. \<exists>why.
      checkTier1Qualification tp g swc mc pc (minPossessiveForConfirm opts)
        (minMentionsForPossessiveConfirm opts) (minIndependentPartMentions opts) = Some why \<and>
      e = confirmedEntity g why)"
proof (induction gs arbitrary: res)
  case Nil
  then show ?case by simp
next
  case (Cons g gs)
  from Cons.IH [of "tierStep tp swc mc pc opts g res"] Cons.prems
  show ?case
    by (cases "checkTier1Qualification tp g swc mc pc (minPossessiveForConfirm opts)
                 (minMentionsForPossessiveConfirm opts) (minIndependentPartMentions opts)")
       (auto simp: tierStep_confirmed)
qed

text \<open>
  C6. A group whose canonical name is one of the title words alone, with or without a
  trailing period, or a title word followed by a single capital letter, does not
  qualify for the first tier, whatever its evidence and whatever the counts and
  thresholds; and no confirmed entity returned by \<open>tierEntities\<close> has such a name.
\<close>

theorem tierEntities_never_confirms_bare_title:
  assumes "bareTitleName nm \<or> titleInitialName nm"
  shows "(\<forall>g. g_canonicalName g = nm \<longrightarrow>
            checkTier1Qualification titlePrefixes g swc mc pc minPoss minMent minPart = None) \<and>
         (\<forall>e \<in> set (tier_confirmedCharacters (tierEntities titlePrefixes cleanGroups er opts)).
            canonicalName e \<noteq> nm)"
proof (intro conjI allI impI ballI)
  fix g :: entity_group
  assume "g_canonicalName g = nm"
  then show "checkTier1Qualification titlePrefixes g swc mc pc minPoss minMent minPart = None"
    using assms by (simp add: checkTier1Qualification_disqualified)
next
  fix e
  assume "e \<in> set (tier_confirmedCharacters (tierEntities titlePrefixes cleanGroups er opts))"
  then have "e \<in> set (tier_confirmedCharacters
                 (fold (tierStep titlePrefixes (buildSingleWordCounts cleanGroups)
                          (mentionCounts er) (possessiveCounts er) opts)
                    cleanGroups \<lparr>tier_confirmedCharacters = [], tier_candidates = []\<rparr>))"
    by (simp add: tierEntities_def Let_def)
  from fold_tierStep_confirmed [OF this]
  obtain g why where
    q: "checkTier1Qualification titlePrefixes g (buildSingleWordCounts cleanGroups)
          (mentionCounts er) (possessiveCounts er) (minPossessiveForConfirm opts)
          (minMentionsForPossessiveConfirm opts) (minIndependentPartMentions opts) = Some why"
    and e: "e = confirmedEntity g why"
    by auto
  show "canonicalName e \<noteq> nm"
  proof
    assume "canonicalName e = nm"
    then have "g_canonicalName g = nm" by (simp add: e confirmedEntity_def)
    then have "checkTier1Qualification titlePrefixes g (buildSingleWordCounts cleanGroups)
          (mentionCounts er) (possessiveCounts er) (minPossessiveForConfirm opts)
          (minMentionsForPossessiveConfirm opts) (minIndependentPartMentions opts) = None"
      using assms by (simp add: checkTier1Qualification_disqualified)
    then show False using q by simp
  qed
qed

text \<open>A group named \<open>Professor\<close> with titled evidence, 70 mentions and 9 possessives is
  not confirmed; it is a candidate.\<close>

theorem tierEntities_never_confirms_bare_title_witness:
  "checkTier1Qualification {''professor''} bareTitleGroup [(''Professor'', 70)] []
     [(''Professor'', 9)] 5 20 10 = None \<and>
   ''Professor'' \<notin> set (map canonicalName (tier_confirmedCharacters
       (tierEntities {''professor''} [bareTitleGroup]
          (emptyExtraction\<lparr>possessiveCounts := [(''Professor'', 9)]\<rparr>) defaultTierOptions)))"
proof -
  have b: "bareTitleName ''Professor'' \<or> titleInitialName ''Professor''"
    by (simp add: bareTitleName_def titleWords_def)
  have n: "g_canonicalName bareTitleGroup = ''Professor''" by (simp add: bareTitleGroup_def)
  from tierEntities_never_confirms_bare_title [OF b]
  have 1: "\<forall>g. g_canonicalName g = ''Professor'' \<longrightarrow>
            checkTier1Qualification {''professor''} g [(''Professor'', 70)] []
              [(''Professor'', 9)] 5 20 10 = None"
    and 2: "\<forall>e \<in> set (tier_confirmedCharacters
       (tierEntities {''professor''} [bareTitleGroup]
          (emptyExtraction\<lparr>possessiveCounts := [(''Professor'', 9)]\<rparr>) defaultTierOptions)).
      canonicalName e \<noteq> ''Professor''"
    by blast+
  from 1 n have "checkTier1Qualification {''professor''} bareTitleGroup [(''Professor'', 70)] []
     [(''Professor'', 9)] 5 20 10 = None"
    by blast
  moreover have "''Professor'' \<notin> set (map canonicalName (tier_confirmedCharacters
       (tierEntities {''professor''} [bareTitleGroup]
          (emptyExtraction\<lparr>possessiveCounts := [(''Professor'', 9)]\<rparr>) defaultTierOptions)))"
  proof
    assume "''Professor'' \<in> set (map canonicalName (tier_confirmedCharacters
       (tierEntities {''professor''} [bareTitleGroup]
          (emptyExtraction\<lparr>possessiveCounts := [(''Professor'', 9)]\<rparr>) defaultTierOptions)))"
    then obtain e where e: "e \<in> set (tier_confirmedCharacters
       (tierEntities {''professor''} [bareTitleGroup]
          (emptyExtraction\<lparr>possessiveCounts := [(''Professor'', 9)]\<rparr>) defaultTierOptions))"
      and eq: "''Professor'' = canonicalName e"
      unfolding set_map by (rule imageE)
    from bspec [OF 2 e] eq show False by simp
  qed
  ultimately show ?thesis by (rule conjI)
qed

subsection \<open>Consistency of the extraction result\<close>

lemma sum_bumpCount: "sum_list (map snd (bumpCount k m)) = sum_list (map snd m) + 1"
  unfolding bumpCount_def countOf_def
  by (induction m) (auto split: option.splits)

lemma keys_bumpCount: "fst ` set (bumpCount k m) = insert k (fst ` set m)"
  by (simp add: bumpCount_def map_set_keys)

lemma recordMention_length:
  "length (st_mentions (recordMention li pn st)) = length (st_mentions st) + 1"
  by (simp add: recordMention_def)

lemma recordMention_sum:
  "sum_list (map snd (st_mentionCounts (recordMention li pn st))) =
     sum_list (map snd (st_mentionCounts st)) + 1"
  by (simp add: recordMention_def sum_bumpCount)

lemma recordMention_keys:
  "fst ` set (st_mentionCounts (recordMention li pn st)) =
     insert (pn_normalized pn) (fst ` set (st_mentionCounts st))"
  "fst ` set (st_possessiveCounts (recordMention li pn st)) \<subseteq>
     insert (pn_normalized pn) (fst ` set (st_possessiveCounts st))"
  "fst ` set (st_sentenceStartCounts (recordMention li pn st)) \<subseteq>
     insert (pn_normalized pn) (fst ` set (st_sentenceStartCounts st))"
  "fst ` set (st_firstAppearances (recordMention li pn st)) \<subseteq>
     insert (pn_normalized pn) (fst ` set (st_firstAppearances st))"
  by (auto simp: recordMention_def keys_bumpCount map_set_keys split: option.splits)

lemma recordMention_tallied:
  assumes "tallied st"
  shows "tallied (recordMention li pn st)"
proof -
  let ?st = "recordMention li pn st"
  have c: "sum_list (map snd (st_mentionCounts ?st)) = length (st_mentions ?st)"
    using assms by (simp add: recordMention_sum recordMention_length tallied_def)
  have k: "fst ` set (st_mentionCounts ?st) =
             insert (pn_normalized pn) (fst ` set (st_mentionCounts st))"
    by (rule recordMention_keys(1))
  have p: "fst ` set (st_possessiveCounts ?st) \<subseteq> fst ` set (st_mentionCounts ?st)"
  proof -
    have "fst ` set (st_possessiveCounts st) \<subseteq> fst ` set (st_mentionCounts st)"
      using assms by (simp add: tallied_def)
    with recordMention_keys(2) [of li pn st] show ?thesis unfolding k by blast
  qed
  have s: "fst ` set (st_sentenceStartCounts ?st) \<subseteq> fst ` set (st_mentionCounts ?st)"
  proof -
    have "fst ` set (st_sentenceStartCounts st) \<subseteq> fst ` set (st_mentionCounts st)"
      using assms by (simp add: tallied_def)
    with recordMention_keys(3) [of li pn st] show ?thesis unfolding k by blast
  qed
  have f: "fst ` set (st_firstAppearances ?st) \<subseteq> fst ` set (st_mentionCounts ?st)"
  proof -
    have "fst ` set (st_firstAppearances st) \<subseteq> fst ` set (st_mentionCounts st)"
      using assms by (simp add: tallied_def)
    with recordMention_keys(4) [of li pn st] show ?thesis unfolding k by blast
  qed
  show ?thesis unfolding tallied_def using c p s f by (intro conjI)
qed

lemma fold_recordMention_tallied:
  "tallied st \<Longrightarrow> tallied (fold (recordMention li) pns st)"
  by (induction pns arbitrary: st) (simp_all add: recordMention_tallied)

lemma processLine_tallied: "tallied st \<Longrightarrow> tallied (processLine cfg il st)"
  by (simp add: processLine_def Let_def fold_recordMention_tallied) (simp add: tallied_def)

lemma fold_processLine_tallied:
  "tallied st \<Longrightarrow> tallied (fold (processLine cfg) ils st)"
  by (induction ils arbitrary: st) (simp_all add: processLine_tallied)

text \<open>
  C10. For every configuration and every text, the result of \<open>extractProperNouns\<close> is
  internally consistent: \<open>metadata.totalMentions\<close> is the length of \<open>mentions\<close>, the values
  of \<open>mentionCounts\<close> sum up to that length, and every key of \<open>possessiveCounts\<close>, of
  \<open>sentenceStartCounts\<close> and of \<open>firstAppearances\<close> is a key of \<open>mentionCounts\<close>.
\<close>

theorem extractProperNouns_internally_consistent:
  "md_totalMentions (metadata (extractProperNouns cfg t)) =
     length (er_mentions (extractProperNouns cfg t)) \<and>
   sum_list (map snd (mentionCounts (extractProperNouns cfg t))) =
     length (er_mentions (extractProperNouns cfg t)) \<and>
   fst ` set (possessiveCounts (extractProperNouns cfg t)) \<subseteq>
     fst ` set (mentionCounts (extractProperNouns cfg t)) \<and>
   fst ` set (sentenceStartCounts (extractProperNouns cfg t)) \<subseteq>
     fst ` set (mentionCounts (extractProperNouns cfg t)) \<and>
   fst ` set (firstAppearances (extractProperNouns cfg t)) \<subseteq>
     fst ` set (mentionCounts (extractProperNouns cfg t))"
proof -
  let ?st0 = "\<lparr>inFrontmatter = False, currentChapter = 0, paragraphIdx = 0,
               st_mentions = [], st_mentionCounts = [], st_possessiveCounts = [],
               st_sentenceStartCounts = [], st_firstAppearances = []\<rparr>"
  have "tallied ?st0" by (simp add: tallied_def)
  then have "tallied (fold (processLine cfg) (enumerate 0 (splitLines t)) ?st0)"
    by (rule fold_processLine_tallied)
  then show ?thesis by (simp add: extractProperNouns_def Let_def tallied_def)
qed

subsection \<open>Forms shared by two groups\<close>

text \<open>The tallies of the doubled-possessive text: the tripled possessive is counted under
  the doubled one, the doubled one under the plain possessive.\<close>

lemma doubledPossessive_counts:
  "mentionCounts (extractProperNouns sampleConfig doubledPossessiveText) =
     [(''Ron'' @ possessiveSuffix @ possessiveSuffix, 3), (''Ron'' @ possessiveSuffix, 3)]"
  by code_simp

text \<open>
  C9. Every surface form is a variant of at most one group of \<open>buildEntityGroups\<close>. The code
  does not keep this: a possessive form is pushed without a look at \<open>assignedForms\<close>. In
  the text with three \<open>Ron's's's\<close> followed by three \<open>Ron's's\<close> the form \<open>Ron's\<close> anchors a
  group of its own under the single-name rule, and the same rule then attaches it, as the
  possessive of \<open>Ron\<close>, to a second group.
\<close>

theorem groupVariants_form_in_two_groups:
  "map g_canonicalName
     (filter (\<lambda>g. ''Ron'' @ possessiveSuffix \<in> form ` set (g_variants g))
        (groupVariants (extractProperNouns sampleConfig doubledPossessiveText) 5)) =
   [''Ron'', ''Ron'' @ possessiveSuffix]"
  by code_simp

subsection \<open>Mention totals and variant counts\<close>

lemma fold_count_sum: "fold (\<lambda>v s. s + count v) vs a = a + sum_list (map count vs)"
  by (induction vs arbitrary: a) simp_all

text \<open>Every group is named by one of its variants while it is built: the anchor is its
  first variant, the name part that renames a titled group is pushed with the renaming,
  and the attachments only push more variants.\<close>

lemma attachPossessive_named:
  "draftNamed (fst ga) \<Longrightarrow> draftNamed (fst (attachPossessive mCounts base ga))"
  by (simp add: attachPossessive_def Let_def draftNamed_def)

lemma attachPart_named:
  "draftNamed (fst ga) \<Longrightarrow> draftNamed (fst (attachPart fs mCounts part ga))"
proof -
  assume n: "draftNamed (fst ga)"
  have "draftNamed (fst ((fst ga)\<lparr>d_variants := d_variants (fst ga) @ [v]\<rparr>, a))" for v a
    using n by (simp add: draftNamed_def)
  then show ?thesis
    using n by (simp add: attachPart_def attachPossessive_named split: option.splits)
qed

lemma fold_attachPart_named:
  "draftNamed (fst ga) \<Longrightarrow> draftNamed (fst (fold (attachPart fs mCounts) ps ga))"
  by (induction ps arbitrary: ga) (simp_all add: attachPart_named)

lemma attachTitled_named:
  "draftNamed (fst ga) \<Longrightarrow> draftNamed (fst (attachTitled mCounts ps titled ga))"
  by (simp add: attachTitled_def Let_def draftNamed_def)

lemma fold_attachTitled_named:
  "draftNamed (fst ga) \<Longrightarrow> draftNamed (fst (fold (attachTitled mCounts ps) ts ga))"
  by (induction ts arbitrary: ga) (simp_all add: attachTitled_named)

lemma fullNameStep_named:
  assumes "\<forall>d \<in> set (bs_groups st). draftNamed d"
  shows "\<forall>d \<in> set (bs_groups (fullNameStep fs mCounts fullName st)). draftNamed d"
proof -
  have "draftNamed (fst (fold (attachTitled mCounts ps) ts (fold (attachPart fs mCounts) ps
          (\<lparr>d_canonicalName = fst fullName,
            d_variants = [mkVariant (fst fullName) n False None],
            d_evidence = ev\<rparr>, a))))" for ps ts n ev a
    by (intro fold_attachTitled_named fold_attachPart_named)
       (simp add: draftNamed_def mkVariant_def)
  then show ?thesis using assms by (simp add: fullNameStep_def Let_def)
qed

lemma titledStep_named:
  assumes "\<forall>d \<in> set (bs_groups st). draftNamed d"
  shows "\<forall>d \<in> set (bs_groups (titledStep fs mCounts titled st)). draftNamed d"
proof -
  have 1: "draftNamed \<lparr>d_canonicalName = tn_form titled,
                       d_variants = [mkVariant (tn_form titled) n True None],
                       d_evidence = ev\<rparr>" for n ev
    by (simp add: draftNamed_def mkVariant_def)
  have 2: "draftNamed (fst (attachPossessive mCounts (tn_name titled)
             (\<lparr>d_canonicalName = tn_form titled,
               d_variants = [mkVariant (tn_form titled) n True None],
               d_evidence = ev\<rparr>
              \<lparr>d_variants := [mkVariant (tn_form titled) n True None] @
                              [mkVariant (tn_name titled) k False None],
                d_canonicalName := tn_name titled\<rparr>, a)))" for n ev k a
    by (rule attachPossessive_named) (simp add: draftNamed_def mkVariant_def)
  show ?thesis
    using assms 1 2 by (simp add: titledStep_def Let_def split: option.splits)
qed

lemma singleStep_named:
  assumes "\<forall>d \<in> set (bs_groups st). draftNamed d"
  shows "\<forall>d \<in> set (bs_groups (singleStep mCounts single st)). draftNamed d"
proof -
  have 1: "draftNamed (fst (attachPossessive mCounts (fst single)
             (\<lparr>d_canonicalName = fst single,
               d_variants = [mkVariant (fst single) n False None],
               d_evidence = ev\<rparr>, a)))" for n ev a
    by (rule attachPossessive_named) (simp add: draftNamed_def mkVariant_def)
  have 2: "draftNamed (d\<lparr>d_evidence := ev\<rparr>) = draftNamed d" for d ev
    by (simp add: draftNamed_def)
  show ?thesis
    using assms 1 by (simp add: singleStep_def Let_def 2)
qed

lemma fold_fullNameStep_named:
  "\<forall>d \<in> set (bs_groups st). draftNamed d \<Longrightarrow>
   \<forall>d \<in> set (bs_groups (fold (fullNameStep fs mCounts) xs st)). draftNamed d"
proof (induction xs arbitrary: st)
  case Nil
  then show ?case by simp
next
  case (Cons x xs)
  show ?case using Cons.IH [OF fullNameStep_named [OF Cons.prems]] by simp
qed

lemma fold_titledStep_named:
  "\<forall>d \<in> set (bs_groups st). draftNamed d \<Longrightarrow>
   \<forall>d \<in> set (bs_groups (fold (titledStep fs mCounts) xs st)). draftNamed d"
proof (induction xs arbitrary: st)
  case Nil
  then show ?case by simp
next
  case (Cons x xs)
  show ?case using Cons.IH [OF titledStep_named [OF Cons.prems]] by simp
qed

lemma fold_singleStep_named:
  "\<forall>d \<in> set (bs_groups st). draftNamed d \<Longrightarrow>
   \<forall>d \<in> set (bs_groups (fold (singleStep mCounts) xs st)). draftNamed d"
proof (induction xs arbitrary: st)
  case Nil
  then show ?case by simp
next
  case (Cons x xs)
  show ?case using Cons.IH [OF singleStep_named [OF Cons.prems]] by simp
qed

lemma finishGroup_consistent: "draftNamed d \<Longrightarrow> groupConsistent (finishGroup fas d)"
  by (simp add: finishGroup_def groupConsistent_def draftNamed_def fold_count_sum)

lemma buildEntityGroups_consistent:
  assumes "g \<in> set (buildEntityGroups fs mCounts fas)"
  shows "groupConsistent g"
proof -
  define st3 where
    "st3 = fold (singleStep mCounts) (singleNames fs)
             (fold (titledStep fs mCounts) (titledNames fs)
                (fold (fullNameStep fs mCounts) (fullNames fs)
                   \<lparr>bs_groups = [], assignedForms = {}\<rparr>))"
  have "\<forall>d \<in> set (bs_groups \<lparr>bs_groups = [], assignedForms = {}\<rparr>). draftNamed d" by simp
  then have n: "\<forall>d \<in> set (bs_groups st3). draftNamed d"
    unfolding st3_def
    by (intro fold_singleStep_named fold_titledStep_named fold_fullNameStep_named)
  from assms obtain d where "d \<in> set (bs_groups st3)" and "g = finishGroup fas d"
    unfolding buildEntityGroups_def Let_def set_sort_desc st3_def by auto
  with n show ?thesis by (simp add: finishGroup_consistent)
qed

lemma groupVariants_consistent:
  assumes "g \<in> set (groupVariants er n)"
  shows "groupConsistent g"
proof -
  from assms have "g \<in> set (buildEntityGroups
      (categorizeFormsFromMentions (er_mentions er) (mentionCounts er))
      (mentionCounts er) (firstAppearances er))"
    by (simp add: groupVariants_def Let_def)
  then show ?thesis by (rule buildEntityGroups_consistent)
qed

text \<open>The junk filter passes a group on with its sentence-start ratio set, and the tiers
  copy name, total and variants into the entity.\<close>

lemma filterStep_clean:
  "set (clean (filterStep ss mc tw t g res)) \<subseteq>
     set (clean res) \<union> {g\<lparr>g_sentenceStartRatio := Some (round2 (sentenceStartRatioOf g ss))\<rparr>}"
  by (auto simp: filterStep_def split: option.splits)

lemma fold_filterStep_clean:
  "(\<forall>g \<in> set (clean res). groupConsistent g) \<Longrightarrow> (\<forall>g \<in> set gs. groupConsistent g) \<Longrightarrow>
   \<forall>g \<in> set (clean (fold (filterStep ss mc tw t) gs res)). groupConsistent g"
proof (induction gs arbitrary: res)
  case Nil
  then show ?case by simp
next
  case (Cons g gs)
  have "groupConsistent (g\<lparr>g_sentenceStartRatio := r\<rparr>)" for r
    using Cons.prems(2) by (simp add: groupConsistent_def)
  then have "\<forall>x \<in> set (clean (filterStep ss mc tw t g res)). groupConsistent x"
    using Cons.prems(1) filterStep_clean [of ss mc tw t g res] by auto
  from Cons.IH [OF this] Cons.prems(2) show ?case by simp
qed

lemma filterJunk_clean_consistent:
  "\<forall>g \<in> set gs. groupConsistent g \<Longrightarrow>
   \<forall>g \<in> set (clean (filterJunk gs er t)). groupConsistent g"
  unfolding filterJunk_def by (rule fold_filterStep_clean) simp_all

lemma confirmedEntity_consistent: "groupConsistent g \<Longrightarrow> consistent (confirmedEntity g why)"
  by (auto simp: groupConsistent_def consistent_def confirmedEntity_def variantTotal_def
      namedByVariant_def or_empty_def plainVariant_def comp_def image_iff)

lemma candidateEntity_consistent: "groupConsistent g \<Longrightarrow> consistent (candidateEntity g)"
  by (auto simp: groupConsistent_def consistent_def candidateEntity_def variantTotal_def
      namedByVariant_def or_empty_def plainVariant_def comp_def image_iff)

lemma tierStep_consistent:
  assumes "groupConsistent g"
    and "\<forall>e \<in> set (tier_confirmedCharacters res @ tier_candidates res). consistent e"
  shows "\<forall>e \<in> set (tier_confirmedCharacters (tierStep tp swc mc pc opts g res) @
                    tier_candidates (tierStep tp swc mc pc opts g res)). consistent e"
  using assms confirmedEntity_consistent [OF assms(1)] candidateEntity_consistent [OF assms(1)]
  by (auto simp: tierStep_def split: option.splits)

lemma fold_tierStep_consistent:
  "\<forall>g \<in> set gs. groupConsistent g \<Longrightarrow>
   \<forall>e \<in> set (tier_confirmedCharacters res @ tier_candidates res). consistent e \<Longrightarrow>
   \<forall>e \<in> set (tier_confirmedCharacters (fold (tierStep tp swc mc pc opts) gs res) @
              tier_candidates (fold (tierStep tp swc mc pc opts) gs res)). consistent e"
proof (induction gs arbitrary: res)
  case Nil
  then show ?case by simp
next
  case (Cons g gs)
  have g: "groupConsistent g" using Cons.prems(1) by simp
  have gs: "\<forall>g \<in> set gs. groupConsistent g" using Cons.prems(1) by simp
  from Cons.IH [OF gs tierStep_consistent [OF g Cons.prems(2)]] show ?case by simp
qed

lemma tierEntities_consistent:
  assumes "\<forall>g \<in> set gs. groupConsistent g"
  shows "\<forall>e \<in> set (tier_confirmedCharacters (tierEntities tp gs er opts) @
                    tier_candidates (tierEntities tp gs er opts)). consistent e"
proof -
  have "\<forall>e \<in> set (tier_confirmedCharacters \<lparr>tier_confirmedCharacters = [], tier_candidates = []\<rparr> @
                   tier_candidates \<lparr>tier_confirmedCharacters = [], tier_candidates = []\<rparr>).
          consistent e"
    by simp
  from fold_tierStep_consistent [OF assms this]
  show ?thesis by (simp add: tierEntities_def Let_def)
qed

text \<open>
  C1. Every group of \<open>groupVariants\<close> has as \<open>totalMentions\<close> the sum of its variants'
  counts. Every entity that \<open>tierEntities\<close> builds from the groups that \<open>filterJunk\<close> lets
  pass has as \<open>mentions\<close> the sum of its variants' counts, and so has every entity that
  \<open>applyMerges\<close> returns for these entities, confirmed and candidates together as
  \<open>runCorefResolution\<close> passes them, whatever the merge groups are.
\<close>

theorem mention_total_is_variant_sum:
  "let groups = groupVariants er minMentions;
       tiers = tierEntities titlePrefixes (clean (filterJunk groups erFilter fullText)) erTier opts;
       es = tier_confirmedCharacters tiers @ tier_candidates tiers
   in (\<forall>g \<in> set groups. totalMentions g = sum_list (map count (g_variants g))) \<and>
      (\<forall>e \<in> set es. mentions e = sum_list (map count (or_empty (variants e)))) \<and>
      (\<forall>e \<in> set (entities (applyMerges es mgs)).
         mentions e = sum_list (map count (or_empty (variants e))))"
proof -
  define groups where "groups = groupVariants er minMentions"
  define tiers where
    "tiers = tierEntities titlePrefixes (clean (filterJunk groups erFilter fullText)) erTier opts"
  define es where "es = tier_confirmedCharacters tiers @ tier_candidates tiers"
  have g: "\<forall>g \<in> set groups. groupConsistent g"
    unfolding groups_def using groupVariants_consistent by blast
  then have 1: "\<forall>g \<in> set groups. totalMentions g = sum_list (map count (g_variants g))"
    by (simp add: groupConsistent_def)
  have "\<forall>g \<in> set (clean (filterJunk groups erFilter fullText)). groupConsistent g"
    using g by (rule filterJunk_clean_consistent)
  then have e: "\<forall>e \<in> set es. consistent e"
    unfolding es_def tiers_def by (rule tierEntities_consistent)
  then have 2: "\<forall>e \<in> set es. mentions e = sum_list (map count (or_empty (variants e)))"
    by (simp add: consistent_def variantTotal_def)
  have "\<forall>e \<in> set (entities (applyMerges es mgs)). consistent e"
    using e by (rule applyMerges_consistent)
  then have 3: "\<forall>e \<in> set (entities (applyMerges es mgs)).
                  mentions e = sum_list (map count (or_empty (variants e)))"
    by (simp add: consistent_def variantTotal_def)
  show ?thesis
    unfolding Let_def using 1 2 3
    by (simp only: groups_def tiers_def es_def simp_thms)
qed

text \<open>The groups and entities of a short text, in which \<open>Ron\<close> (3) then absorbs \<open>Ronald\<close> (3):
  6 mentions, and 6 as the sum of the two variants.\<close>

theorem mention_total_is_variant_sum_witness:
  "(\<exists>g \<in> set (groupVariants (extractProperNouns sampleConfig harryRonText) 3).
      g_canonicalName g = ''Harry Potter'' \<and> totalMentions g = 6 \<and>
      sum_list (map count (g_variants g)) = 6) \<and>
   (\<exists>e \<in> set harryRonEntities.
      canonicalName e = ''Ronald'' \<and> mentions e = 3 \<and>
      sum_list (map count (or_empty (variants e))) = 3) \<and>
   (\<exists>e \<in> set (entities (applyMerges harryRonEntities [JArr [JStr ''Ron'', JStr ''Ronald'']])).
      canonicalName e = ''Ron'' \<and> mentions e = 6 \<and>
      sum_list (map count (or_empty (variants e))) = 6)"
proof -
  let ?er = "extractProperNouns sampleConfig harryRonText"
  let ?mgs = "[JArr [JStr ''Ron'', JStr ''Ronald'']]"
  have gs: "map (\<lambda>g. (g_canonicalName g, totalMentions g)) (groupVariants ?er 3) =
            [(''Harry Potter'', 6), (''Ron'', 3), (''Ronald'', 3)]"
    by code_simp
  have es: "map (\<lambda>e. (canonicalName e, mentions e)) harryRonEntities =
            [(''Harry Potter'', 6), (''Ron'', 3), (''Ronald'', 3)]"
    by code_simp
  have res: "map (\<lambda>e. (canonicalName e, mentions e)) (entities (applyMerges harryRonEntities ?mgs)) =
               [(''Harry Potter'', 6), (''Ron'', 6)]"
    by code_simp
  from mention_total_is_variant_sum
         [of ?er 3 "titlePrefixesOf sampleConfig" ?er harryRonText ?er keepAllOptions ?mgs]
  have a: "\<forall>g \<in> set (groupVariants ?er 3). totalMentions g = sum_list (map count (g_variants g))"
    and b: "\<forall>e \<in> set harryRonEntities. mentions e = sum_list (map count (or_empty (variants e)))"
    and c: "\<forall>e \<in> set (entities (applyMerges harryRonEntities ?mgs)).
              mentions e = sum_list (map count (or_empty (variants e)))"
    unfolding harryRonEntities_def Let_def by blast+
  have "(''Harry Potter'', 6) \<in> set (map (\<lambda>g. (g_canonicalName g, totalMentions g))
                                         (groupVariants ?er 3))"
    unfolding gs by simp
  then obtain g where "g \<in> set (groupVariants ?er 3)"
    and "(''Harry Potter'', 6) = (g_canonicalName g, totalMentions g)"
    unfolding set_map by (rule imageE)
  then have g: "g \<in> set (groupVariants ?er 3)" "g_canonicalName g = ''Harry Potter''"
    "totalMentions g = 6"
    by simp_all
  from a g(1,3) have "sum_list (map count (g_variants g)) = 6" by simp
  with g have 1: "\<exists>g \<in> set (groupVariants ?er 3).
      g_canonicalName g = ''Harry Potter'' \<and> totalMentions g = 6 \<and>
      sum_list (map count (g_variants g)) = 6"
    by blast
  have "(''Ronald'', 3) \<in> set (map (\<lambda>e. (canonicalName e, mentions e)) harryRonEntities)"
    unfolding es by simp
  then obtain e where "e \<in> set harryRonEntities"
    and "(''Ronald'', 3) = (canonicalName e, mentions e)"
    unfolding set_map by (rule imageE)
  then have e: "e \<in> set harryRonEntities" "canonicalName e = ''Ronald''" "mentions e = 3"
    by simp_all
  from b e(1,3) have "sum_list (map count (or_empty (variants e))) = 3" by simp
  with e have 2: "\<exists>e \<in> set harryRonEntities.
      canonicalName e = ''Ronald'' \<and> mentions e = 3 \<and>
      sum_list (map count (or_empty (variants e))) = 3"
    by blast
  have "(''Ron'', 6) \<in> set (map (\<lambda>e. (canonicalName e, mentions e))
                                (entities (applyMerges harryRonEntities ?mgs)))"
    unfolding res by simp
  then obtain q where "q \<in> set (entities (applyMerges harryRonEntities ?mgs))"
    and "(''Ron'', 6) = (canonicalName q, mentions q)"
    unfolding set_map by (rule imageE)
  then have q: "q \<in> set (entities (applyMerges harryRonEntities ?mgs))"
    "canonicalName q = ''Ron''" "mentions q = 6"
    by simp_all
  from c q(1,3) have "sum_list (map count (or_empty (variants q))) = 6" by simp
  with q have 3: "\<exists>e \<in> set (entities (applyMerges harryRonEntities ?mgs)).
      canonicalName e = ''Ron'' \<and> mentions e = 6 \<and>
      sum_list (map count (or_empty (variants e))) = 6"
    by blast
  from 1 2 3 show ?thesis by (intro conjI)
qed

end
